theory Spec2Isabelle
  imports Complex_Main
begin

section \<open>JavaScript numbers\<close>

text \<open>
  A JavaScript number is an IEEE-754 double. The model keeps the three kinds of special
  value the program can observe (\<open>NaN\<close>, \<open>+Infinity\<close>, \<open>-Infinity\<close>) and takes every finite
  value as a real: the operators below follow the IEEE rules for the special values and
  are exact on finite operands. Rounding to 53 bits and overflow of a finite result are
  not part of these operators (the section on machine arithmetic adds them where a
  property depends on them), and the two zeros are one value; a zero divisor counts as
  \<open>+0\<close>, which is what the subtraction \<open>x - x\<close> of the program yields.
\<close>

datatype number = NaN | PInf | NInf | Fin real

fun isNaN :: "number \<Rightarrow> bool" where
  "isNaN NaN = True"
| "isNaN _ = False"

fun js_neg :: "number \<Rightarrow> number" where
  "js_neg NaN = NaN"
| "js_neg PInf = NInf"
| "js_neg NInf = PInf"
| "js_neg (Fin a) = Fin (- a)"

fun js_add :: "number \<Rightarrow> number \<Rightarrow> number" where
  "js_add NaN _ = NaN"
| "js_add _ NaN = NaN"
| "js_add PInf NInf = NaN"
| "js_add NInf PInf = NaN"
| "js_add PInf _ = PInf"
| "js_add _ PInf = PInf"
| "js_add NInf _ = NInf"
| "js_add _ NInf = NInf"
| "js_add (Fin a) (Fin b) = Fin (a + b)"

definition js_sub :: "number \<Rightarrow> number \<Rightarrow> number" where
  "js_sub x y = js_add x (js_neg y)"

text \<open>The sign of a product or quotient with an infinite operand.\<close>

definition signed_inf :: "bool \<Rightarrow> number" where
  "signed_inf negative = (if negative then NInf else PInf)"

fun js_mul :: "number \<Rightarrow> number \<Rightarrow> number" where
  "js_mul NaN _ = NaN"
| "js_mul _ NaN = NaN"
| "js_mul PInf PInf = PInf"
| "js_mul PInf NInf = NInf"
| "js_mul NInf PInf = NInf"
| "js_mul NInf NInf = PInf"
| "js_mul PInf (Fin b) = (if b = 0 then NaN else signed_inf (b < 0))"
| "js_mul NInf (Fin b) = (if b = 0 then NaN else signed_inf (0 < b))"
| "js_mul (Fin a) PInf = (if a = 0 then NaN else signed_inf (a < 0))"
| "js_mul (Fin a) NInf = (if a = 0 then NaN else signed_inf (0 < a))"
| "js_mul (Fin a) (Fin b) = Fin (a * b)"

fun js_div :: "number \<Rightarrow> number \<Rightarrow> number" where
  "js_div NaN _ = NaN"
| "js_div _ NaN = NaN"
| "js_div PInf (Fin b) = signed_inf (b < 0)"
| "js_div NInf (Fin b) = signed_inf (0 \<le> b)"
| "js_div (Fin a) (Fin b) =
     (if b = 0 then (if a = 0 then NaN else signed_inf (a < 0)) else Fin (a / b))"
| "js_div (Fin a) _ = Fin 0"
| "js_div _ _ = NaN"



section \<open>Strings and numeric literals\<close>

text \<open>
  A string is a list of characters, read as code units below 256. The white space that
  \<open>trim\<close>, \<open>parseFloat\<close> and the string-to-number conversion strip is TAB, LF, VT, FF,
  CR, SPACE and NBSP.
\<close>

definition is_space :: "char \<Rightarrow> bool" where
  "is_space c = ((of_char c :: nat) \<in> {9, 10, 11, 12, 13, 32, 160})"

definition trim_start :: "string \<Rightarrow> string" where
  "trim_start s = dropWhile is_space s"

definition trim :: "string \<Rightarrow> string" where
  "trim s = rev (dropWhile is_space (rev (dropWhile is_space s)))"

definition is_digit :: "char \<Rightarrow> bool" where
  "is_digit c = (48 \<le> (of_char c :: nat) \<and> (of_char c :: nat) \<le> 57)"

definition digit_val :: "char \<Rightarrow> nat" where
  "digit_val c = of_char c - 48"

definition digits_value :: "string \<Rightarrow> nat" where
  "digits_value ds = foldl (\<lambda>n c. 10 * n + digit_val c) 0 ds"

definition digit_char :: "nat \<Rightarrow> char" where
  "digit_char n = ''0123456789'' ! n"

text \<open>The decimal digits of a natural number, most significant first.\<close>

fun show_nat :: "nat \<Rightarrow> string" where
  "show_nat n = (if n < 10 then [digit_char n] else show_nat (n div 10) @ [digit_char (n mod 10)])"

definition show_int :: "int \<Rightarrow> string" where
  "show_int i = (if i < 0 then CHR ''-'' # show_nat (nat (- i)) else show_nat (nat i))"

text \<open>\<open>s.padStart(n, "0")\<close>.\<close>

definition padStart0 :: "nat \<Rightarrow> string \<Rightarrow> string" where
  "padStart0 n s = replicate (n - length s) CHR ''0'' @ s"

text \<open>
  \<open>s.split(c)\<close> for a one-character separator: the pieces between the separators, at
  least one piece.
\<close>

fun split :: "char \<Rightarrow> string \<Rightarrow> string list" where
  "split sep [] = [[]]"
| "split sep (c # cs) =
     (if c = sep then [] # split sep cs
      else (case split sep cs of p # ps \<Rightarrow> (c # p) # ps | [] \<Rightarrow> [[c]]))"

text \<open>An array element that may be missing: \<open>None\<close> is \<open>undefined\<close>.\<close>

definition element :: "'a list \<Rightarrow> nat \<Rightarrow> 'a option" where
  "element xs i = (if i < length xs then Some (xs ! i) else None)"

text \<open>
  The value of a scanned decimal literal: the digits \<open>ds\<close> of the integer and fraction
  parts together, scaled by ten to the power \<open>e\<close>.
\<close>

definition scaled :: "string \<Rightarrow> int \<Rightarrow> real" where
  "scaled ds e = (if 0 \<le> e then real (digits_value ds) * 10 ^ nat e
                  else real (digits_value ds) / 10 ^ nat (- e))"

text \<open>
  The exponent part at the head of \<open>s\<close>, if there is one (\<open>e\<close> or \<open>E\<close>, an optional
  sign, at least one digit): its value and the text after it.
\<close>

definition scan_exponent :: "string \<Rightarrow> int \<times> string" where
  "scan_exponent s =
     (case s of
        [] \<Rightarrow> (0, s)
      | c # r \<Rightarrow>
          if c = CHR ''e'' \<or> c = CHR ''E'' then
            (let (neg, r') = (case r of
                                [] \<Rightarrow> (False, r)
                              | x # r'' \<Rightarrow> if x = CHR ''-'' then (True, r'')
                                           else if x = CHR ''+'' then (False, r'')
                                           else (False, r));
                 ds = takeWhile is_digit r'
             in if ds = [] then (0, s)
                else ((if neg then - int (digits_value ds) else int (digits_value ds)),
                      dropWhile is_digit r'))
          else (0, s))"

text \<open>
  The longest prefix of \<open>s\<close> that is a \<open>StrUnsignedDecimalLiteral\<close>: its value and the
  text after it, or \<open>None\<close> when no prefix is one.
\<close>

definition scan_unsigned :: "string \<Rightarrow> (number \<times> string) option" where
  "scan_unsigned s =
     (if take 8 s = ''Infinity'' then Some (PInf, drop 8 s)
      else
        (let ip = takeWhile is_digit s;
             r1 = dropWhile is_digit s;
             dot = (r1 \<noteq> [] \<and> hd r1 = CHR ''.'');
             fp = (if dot then takeWhile is_digit (tl r1) else []);
             r2 = (if dot then dropWhile is_digit (tl r1) else r1)
         in if ip = [] \<and> fp = [] then None
            else (let (e, r3) = scan_exponent r2
                  in Some (Fin (scaled (ip @ fp) (e - int (length fp))), r3))))"

definition scan_decimal :: "string \<Rightarrow> (number \<times> string) option" where
  "scan_decimal s =
     (case s of
        [] \<Rightarrow> None
      | c # r \<Rightarrow>
          if c = CHR ''-'' then map_option (\<lambda>(v, rest). (js_neg v, rest)) (scan_unsigned r)
          else if c = CHR ''+'' then scan_unsigned r
          else scan_unsigned s)"

text \<open>\<open>parseFloat(s)\<close>: leading white space is skipped, text after the literal is ignored.\<close>

definition parseFloat :: "string \<Rightarrow> number" where
  "parseFloat s = (case scan_decimal (trim_start s) of None \<Rightarrow> NaN | Some (v, rest) \<Rightarrow> v)"

text \<open>
  A literal in base 16, 8 or 2 (\<open>0x1F\<close>, \<open>0o17\<close>, \<open>0b101\<close>): the value of a character as a
  digit (16 when it is none), and the value of the literal.
\<close>

definition radix_val :: "char \<Rightarrow> nat" where
  "radix_val c =
     (let n = (of_char c :: nat) in
      if 48 \<le> n \<and> n \<le> 57 then n - 48
      else if 97 \<le> n \<and> n \<le> 102 then n - 87
      else if 65 \<le> n \<and> n \<le> 70 then n - 55
      else 16)"

definition scan_radix :: "string \<Rightarrow> number option" where
  "scan_radix t =
     (case t of
        c0 # c1 # ds \<Rightarrow>
          (let base = (if c1 = CHR ''x'' \<or> c1 = CHR ''X'' then 16
                       else if c1 = CHR ''o'' \<or> c1 = CHR ''O'' then 8
                       else if c1 = CHR ''b'' \<or> c1 = CHR ''B'' then 2
                       else (0::nat))
           in if c0 = CHR ''0'' \<and> base \<noteq> 0 \<and> ds \<noteq> [] \<and> list_all (\<lambda>c. radix_val c < base) ds
              then Some (Fin (real (foldl (\<lambda>n c. base * n + radix_val c) 0 ds)))
              else None)
      | _ \<Rightarrow> None)"

text \<open>
  The conversion of a value to a number, where the program passes strings to the \<open>Date\<close>
  constructor: \<open>undefined\<close> is \<open>NaN\<close>; a string is trimmed, the empty string is 0, and
  otherwise the whole of it must be one numeric literal.
\<close>

definition to_number :: "string option \<Rightarrow> number" where
  "to_number v =
     (case v of
        None \<Rightarrow> NaN
      | Some s \<Rightarrow>
          (let t = trim s in
           if t = [] then Fin 0
           else (case scan_radix t of
                   Some n \<Rightarrow> n
                 | None \<Rightarrow>
                     (case scan_decimal t of
                        Some (n, []) \<Rightarrow> n
                      | _ \<Rightarrow> NaN))))"

text \<open>
  \<open>ToIntegerOrInfinity\<close> on a finite number truncates towards zero; \<open>None\<close> stands for a
  number that is not finite.
\<close>

definition to_integer :: "number \<Rightarrow> int option" where
  "to_integer x = (case x of Fin r \<Rightarrow> Some (if 0 \<le> r then \<lfloor>r\<rfloor> else \<lceil>r\<rceil>) | _ \<Rightarrow> None)"

section \<open>Dates\<close>

text \<open>
  The time value of a \<open>Date\<close> is a whole number of milliseconds since 1970-01-01T00:00Z,
  or \<open>NaN\<close> for an invalid date (here \<open>None\<close>). Time values stay below \<open>2^53\<close>, so their
  arithmetic is exact in the program and integer arithmetic models it. The functions
  below are the abstract operations of the language definition, under its names.
\<close>

type_synonym time_value = "int option"

definition msPerDay :: int where
  "msPerDay = 86400000"

definition Day :: "int \<Rightarrow> int" where
  "Day t = t div msPerDay"

definition TimeWithinDay :: "int \<Rightarrow> int" where
  "TimeWithinDay t = t mod msPerDay"

definition DaysInYear :: "int \<Rightarrow> int" where
  "DaysInYear y =
     (if y mod 4 \<noteq> 0 then 365 else if y mod 100 \<noteq> 0 then 366
      else if y mod 400 \<noteq> 0 then 365 else 366)"

definition DayFromYear :: "int \<Rightarrow> int" where
  "DayFromYear y =
     365 * (y - 1970) + (y - 1969) div 4 - (y - 1901) div 100 + (y - 1601) div 400"

text \<open>
  \<open>YearFromTime(t)\<close> is the largest year \<open>y\<close> with \<open>DayFromYear(y) \<le> Day(t)\<close>. It is
  computed from the estimate \<open>1970 + \<lfloor>Day(t) / 365.2425\<rfloor>\<close>, which is off by at most one
  (lemma \<open>YearFromDay_largest\<close>).
\<close>

definition YearFromDay :: "int \<Rightarrow> int" where
  "YearFromDay d =
     (let y = 1970 + (400 * d) div 146097 in
      if d < DayFromYear y then y - 1
      else if DayFromYear (y + 1) \<le> d then y + 1
      else y)"

definition YearFromTime :: "int \<Rightarrow> int" where
  "YearFromTime t = YearFromDay (Day t)"

definition InLeapYear :: "int \<Rightarrow> int" where
  "InLeapYear t = (if DaysInYear (YearFromTime t) = 366 then 1 else 0)"

definition DayWithinYear :: "int \<Rightarrow> int" where
  "DayWithinYear t = Day t - DayFromYear (YearFromTime t)"

definition MonthFromTime :: "int \<Rightarrow> int" where
  "MonthFromTime t =
     (let d = DayWithinYear t; l = InLeapYear t in
      if d < 31 then 0
      else if d < 59 + l then 1
      else if d < 90 + l then 2
      else if d < 120 + l then 3
      else if d < 151 + l then 4
      else if d < 181 + l then 5
      else if d < 212 + l then 6
      else if d < 243 + l then 7
      else if d < 273 + l then 8
      else if d < 304 + l then 9
      else if d < 334 + l then 10
      else 11)"

definition DateFromTime :: "int \<Rightarrow> int" where
  "DateFromTime t =
     (let d = DayWithinYear t; l = InLeapYear t; m = MonthFromTime t in
      if m = 0 then d + 1
      else if m = 1 then d - 30
      else if m = 2 then d - 58 - l
      else if m = 3 then d - 89 - l
      else if m = 4 then d - 119 - l
      else if m = 5 then d - 150 - l
      else if m = 6 then d - 180 - l
      else if m = 7 then d - 211 - l
      else if m = 8 then d - 242 - l
      else if m = 9 then d - 272 - l
      else if m = 10 then d - 303 - l
      else d - 333 - l)"

definition WeekDay :: "int \<Rightarrow> int" where
  "WeekDay t = (Day t + 4) mod 7"

definition HourFromTime :: "int \<Rightarrow> int" where
  "HourFromTime t = (t div 3600000) mod 24"

definition MinFromTime :: "int \<Rightarrow> int" where
  "MinFromTime t = (t div 60000) mod 60"

definition SecFromTime :: "int \<Rightarrow> int" where
  "SecFromTime t = (t div 1000) mod 60"

definition msFromTime :: "int \<Rightarrow> int" where
  "msFromTime t = t mod 1000"

text \<open>
  The host's time zone enters as \<open>tza\<close>, the offset of local time from UTC in
  milliseconds, the same at every instant: a zone without daylight-saving changes.
\<close>

definition LocalTime :: "int \<Rightarrow> int \<Rightarrow> int" where
  "LocalTime tza t = t + tza"

definition UTC :: "int \<Rightarrow> int \<Rightarrow> int" where
  "UTC tza t = t - tza"

text \<open>
  \<open>MakeDay(year, month, date)\<close>: the day number of the first of the month \<open>month mod 12\<close>
  of the year \<open>year + \<lfloor>month / 12\<rfloor>\<close>, plus \<open>date - 1\<close>. An argument that is not finite
  gives \<open>NaN\<close>.
\<close>

definition DayFromMonth :: "int \<Rightarrow> int \<Rightarrow> int" where
  "DayFromMonth ym mn =
     (let l = (if DaysInYear ym = 366 then 1 else 0) in
      DayFromYear ym +
        (if mn = 0 then 0
         else if mn = 1 then 31
         else if mn = 2 then 59 + l
         else if mn = 3 then 90 + l
         else if mn = 4 then 120 + l
         else if mn = 5 then 151 + l
         else if mn = 6 then 181 + l
         else if mn = 7 then 212 + l
         else if mn = 8 then 243 + l
         else if mn = 9 then 273 + l
         else if mn = 10 then 304 + l
         else 334 + l))"

definition MakeDay :: "int option \<Rightarrow> int option \<Rightarrow> int option \<Rightarrow> int option" where
  "MakeDay year month date =
     (case (year, month, date) of
        (Some y, Some m, Some dt) \<Rightarrow> Some (DayFromMonth (y + m div 12) (m mod 12) + dt - 1)
      | _ \<Rightarrow> None)"

definition MakeDate :: "int option \<Rightarrow> int option \<Rightarrow> int option" where
  "MakeDate day time =
     (case (day, time) of (Some d, Some t) \<Rightarrow> Some (d * msPerDay + t) | _ \<Rightarrow> None)"

definition MakeFullYear :: "int option \<Rightarrow> int option" where
  "MakeFullYear year =
     (case year of
        None \<Rightarrow> None
      | Some y \<Rightarrow> if 0 \<le> y \<and> y \<le> 99 then Some (1900 + y) else Some y)"

definition TimeClip :: "time_value \<Rightarrow> time_value" where
  "TimeClip time =
     (case time of
        None \<Rightarrow> None
      | Some t \<Rightarrow> if \<bar>t\<bar> > 8640000000000000 then None else Some t)"

text \<open>\<open>new Date(d)\<close> for a \<open>Date\<close> \<open>d\<close> copies its time value.\<close>

definition Date_copy :: "time_value \<Rightarrow> time_value" where
  "Date_copy d = TimeClip d"

text \<open>\<open>new Date(year, month, day)\<close>: the fields are local time, at midnight.\<close>

definition Date_fields :: "int \<Rightarrow> number \<Rightarrow> number \<Rightarrow> number \<Rightarrow> time_value" where
  "Date_fields tza year month day =
     (let yr = MakeFullYear (to_integer year);
          finalDate = MakeDate (MakeDay yr (to_integer month) (to_integer day)) (Some 0)
      in TimeClip (map_option (UTC tza) finalDate))"

text \<open>A whole number or \<open>NaN\<close>, as a number.\<close>

definition int_number :: "int option \<Rightarrow> number" where
  "int_number v = (case v of None \<Rightarrow> NaN | Some i \<Rightarrow> Fin (real_of_int i))"

definition getTime :: "time_value \<Rightarrow> number" where
  "getTime d = int_number d"

definition getFullYear :: "int \<Rightarrow> time_value \<Rightarrow> int option" where
  "getFullYear tza d = map_option (\<lambda>t. YearFromTime (LocalTime tza t)) d"

definition getMonth :: "int \<Rightarrow> time_value \<Rightarrow> int option" where
  "getMonth tza d = map_option (\<lambda>t. MonthFromTime (LocalTime tza t)) d"

definition getDate :: "int \<Rightarrow> time_value \<Rightarrow> int option" where
  "getDate tza d = map_option (\<lambda>t. DateFromTime (LocalTime tza t)) d"

definition getDay :: "int \<Rightarrow> time_value \<Rightarrow> int option" where
  "getDay tza d = map_option (\<lambda>t. WeekDay (LocalTime tza t)) d"

text \<open>\<open>d.setDate(date)\<close>, returning the new time value of \<open>d\<close>.\<close>

definition setDate :: "int \<Rightarrow> time_value \<Rightarrow> int option \<Rightarrow> time_value" where
  "setDate tza d date =
     (case d of
        None \<Rightarrow> None
      | Some t0 \<Rightarrow>
          (let t = LocalTime tza t0;
               newDate = MakeDate (MakeDay (Some (YearFromTime t)) (Some (MonthFromTime t)) date)
                           (Some (TimeWithinDay t))
           in TimeClip (map_option (UTC tza) newDate)))"

text \<open>
  The text of a number that is \<open>NaN\<close> or a whole number, as a template literal or
  \<open>String\<close> writes it.
\<close>

definition number_text :: "int option \<Rightarrow> string" where
  "number_text v = (case v of None \<Rightarrow> ''NaN'' | Some i \<Rightarrow> show_int i)"

text \<open>Errors the program raises.\<close>

datatype error = TypeError | RangeError | Error string

text \<open>
  \<open>d.toISOString()\<close>: the UTC fields as \<open>YYYY-MM-DDTHH:mm:ss.sssZ\<close>, the year with four
  digits from 0 to 9999 and with a sign and six digits otherwise. An invalid date raises
  \<open>RangeError\<close>.
\<close>

definition year_text :: "int \<Rightarrow> string" where
  "year_text y =
     (if 0 \<le> y \<and> y \<le> 9999 then padStart0 4 (show_nat (nat y))
      else (if y < 0 then CHR ''-'' else CHR ''+'') # padStart0 6 (show_nat (nat \<bar>y\<bar>)))"

definition pad_int :: "nat \<Rightarrow> int \<Rightarrow> string" where
  "pad_int n i = padStart0 n (show_nat (nat i))"

definition toISOString :: "time_value \<Rightarrow> error + string" where
  "toISOString d =
     (case d of
        None \<Rightarrow> Inl RangeError
      | Some t \<Rightarrow>
          Inr (year_text (YearFromTime t) @ ''-'' @ pad_int 2 (MonthFromTime t + 1) @ ''-''
               @ pad_int 2 (DateFromTime t) @ ''T'' @ pad_int 2 (HourFromTime t) @ '':''
               @ pad_int 2 (MinFromTime t) @ '':'' @ pad_int 2 (SecFromTime t) @ ''.''
               @ pad_int 3 (msFromTime t) @ ''Z''))"

subsection \<open>Dates from text\<close>

text \<open>
  \<open>Date.parse(s)\<close> and \<open>new Date(s)\<close>. The language fixes the result for its own date-time
  format only and leaves every other text to the host. The definitions below follow the
  parser of the V8 engine, on which Node.js runs the program (its class \<open>DateParser\<close>,
  under its names). The text is cut into tokens. A first stage (\<open>ParseES5DateTime\<close>)
  reads as much of the ISO format as it finds; the tokens it leaves go through the legacy
  loop, which collects numbers, a month name, a time of day and a zone in three composers.
  The composers then give the fields of the date. A text in the date-only ISO form is
  midnight UTC; a date without a zone in any other form is local time.

  A word is looked up by its first three characters, in either case. A word longer than
  the entry matches only a month name.
\<close>

datatype KeywordType = INVALID | MONTH_NAME | AM_PM | TIME_ZONE_NAME | TIME_SEPARATOR

datatype DateToken =
    Number int nat
  | Symbol char
  | WhiteSpace
  | Keyword KeywordType int nat
  | Unknown
  | Invalid
  | EndOfInput

definition KeywordTable :: "(string \<times> KeywordType \<times> int) list" where
  "KeywordTable =
     [(''jan'', MONTH_NAME, 1), (''feb'', MONTH_NAME, 2), (''mar'', MONTH_NAME, 3),
      (''apr'', MONTH_NAME, 4), (''may'', MONTH_NAME, 5), (''jun'', MONTH_NAME, 6),
      (''jul'', MONTH_NAME, 7), (''aug'', MONTH_NAME, 8), (''sep'', MONTH_NAME, 9),
      (''oct'', MONTH_NAME, 10), (''nov'', MONTH_NAME, 11), (''dec'', MONTH_NAME, 12),
      (''am'', AM_PM, 0), (''pm'', AM_PM, 12),
      (''ut'', TIME_ZONE_NAME, 0), (''utc'', TIME_ZONE_NAME, 0), (''z'', TIME_ZONE_NAME, 0),
      (''gmt'', TIME_ZONE_NAME, 0),
      (''cdt'', TIME_ZONE_NAME, - 5), (''cst'', TIME_ZONE_NAME, - 6),
      (''edt'', TIME_ZONE_NAME, - 4), (''est'', TIME_ZONE_NAME, - 5),
      (''mdt'', TIME_ZONE_NAME, - 6), (''mst'', TIME_ZONE_NAME, - 7),
      (''pdt'', TIME_ZONE_NAME, - 7), (''pst'', TIME_ZONE_NAME, - 8),
      (''t'', TIME_SEPARATOR, 0)]"

definition same_letter :: "char \<Rightarrow> char \<Rightarrow> bool" where
  "same_letter c l = (c = l \<or> (of_char c :: nat) + 32 = of_char l)"

definition Lookup :: "string \<Rightarrow> DateToken" where
  "Lookup w =
     (case filter (\<lambda>(name, kind, v). list_all2 same_letter (take 3 w) name
                                      \<and> (length w \<le> 3 \<or> kind = MONTH_NAME)) KeywordTable of
        [] \<Rightarrow> Keyword INVALID 0 (length w)
      | (name, kind, v) # _ \<Rightarrow> Keyword kind v (length w))"

text \<open>
  The scanner. A number token has the value of its first nine digits after the leading
  zeros, and its length in characters. A word is a run of characters from \<open>A\<close> upwards
  that are not white space. A parenthesis opens a comment that runs to the matching one.
  \<open>Scan c r\<close> is the token at the head of \<open>c # r\<close> and the number of characters of \<open>r\<close>
  that belong to it.
\<close>

definition is_word_char :: "char \<Rightarrow> bool" where
  "is_word_char c = (65 \<le> (of_char c :: nat) \<and> \<not> is_space c)"

definition ReadUnsignedNumeral :: "string \<Rightarrow> int" where
  "ReadUnsignedNumeral ds = int (digits_value (take 9 (dropWhile (\<lambda>c. c = CHR ''0'') ds)))"

fun SkipParentheses :: "nat \<Rightarrow> string \<Rightarrow> string" where
  "SkipParentheses balance [] = []"
| "SkipParentheses balance (c # r) =
     (if balance = 0 then c # r
      else if c = CHR '')'' then SkipParentheses (balance - 1) r
      else if c = CHR ''('' then SkipParentheses (balance + 1) r
      else SkipParentheses balance r)"

definition Scan :: "char \<Rightarrow> string \<Rightarrow> DateToken \<times> nat" where
  "Scan c r =
     (if is_digit c then
        (Number (ReadUnsignedNumeral (c # takeWhile is_digit r)) (Suc (length (takeWhile is_digit r))),
         length (takeWhile is_digit r))
      else if c = CHR '':'' \<or> c = CHR ''-'' \<or> c = CHR ''+'' \<or> c = CHR ''.'' \<or> c = CHR '')''
      then (Symbol c, 0)
      else if is_word_char c then
        (Lookup (c # takeWhile is_word_char r), length (takeWhile is_word_char r))
      else if is_space c then (WhiteSpace, 0)
      else if c = CHR ''('' then (Unknown, length r - length (SkipParentheses 1 r))
      else (Unknown, 0))"

fun tokens :: "string \<Rightarrow> DateToken list" where
  "tokens [] = []"
| "tokens (c # r) = fst (Scan c r) # tokens (drop (snd (Scan c r)) r)"

text \<open>
  The composers: the numbers of the date (at most three), the month a word has named and
  whether the text was in ISO form; the numbers of the time of day (at most four) and the
  twelve-hour offset of \<open>AM\<close> or \<open>PM\<close>; the sign, hours and minutes of the zone.
\<close>

record DayComposer =
  day_comp :: "int list"
  named_month :: "int option"
  is_iso_date :: bool

record TimeComposer =
  time_comp :: "int list"
  hour_offset :: "int option"

record TimeZoneComposer =
  tz_sign :: "int option"
  tz_hour :: "int option"
  tz_minute :: "int option"

definition empty_day :: DayComposer where
  "empty_day = \<lparr> day_comp = [], named_month = None, is_iso_date = False \<rparr>"

definition empty_time :: TimeComposer where
  "empty_time = \<lparr> time_comp = [], hour_offset = None \<rparr>"

definition empty_tz :: TimeZoneComposer where
  "empty_tz = \<lparr> tz_sign = None, tz_hour = None, tz_minute = None \<rparr>"

definition IsMonth :: "int \<Rightarrow> bool" where
  "IsMonth x = (1 \<le> x \<and> x \<le> 12)"

definition IsDay :: "int \<Rightarrow> bool" where
  "IsDay x = (1 \<le> x \<and> x \<le> 31)"

definition IsHour :: "int \<Rightarrow> bool" where
  "IsHour x = (0 \<le> x \<and> x \<le> 23)"

definition IsHour12 :: "int \<Rightarrow> bool" where
  "IsHour12 x = (0 \<le> x \<and> x \<le> 12)"

definition IsMinute :: "int \<Rightarrow> bool" where
  "IsMinute x = (0 \<le> x \<and> x \<le> 59)"

definition IsSecond :: "int \<Rightarrow> bool" where
  "IsSecond x = (0 \<le> x \<and> x \<le> 59)"

definition IsMillisecond :: "int \<Rightarrow> bool" where
  "IsMillisecond x = (0 \<le> x \<and> x \<le> 999)"

definition time_IsExpecting :: "int \<Rightarrow> TimeComposer \<Rightarrow> bool" where
  "time_IsExpecting n t =
     ((length (time_comp t) = 1 \<and> IsMinute n) \<or> (length (time_comp t) = 2 \<and> IsSecond n)
      \<or> (length (time_comp t) = 3 \<and> IsMillisecond n))"

definition time_AddFinal :: "int \<Rightarrow> TimeComposer \<Rightarrow> TimeComposer" where
  "time_AddFinal n t =
     (if length (time_comp t) < 4
      then t \<lparr> time_comp := time_comp t @ [n] @ replicate (3 - length (time_comp t)) 0 \<rparr>
      else t)"

definition tz_Set :: "int \<Rightarrow> TimeZoneComposer" where
  "tz_Set offset_in_hours =
     \<lparr> tz_sign = Some (if offset_in_hours < 0 then - 1 else 1),
       tz_hour = Some \<bar>offset_in_hours\<bar>, tz_minute = Some 0 \<rparr>"

definition tz_IsExpecting :: "int \<Rightarrow> TimeZoneComposer \<Rightarrow> bool" where
  "tz_IsExpecting n z = (tz_hour z \<noteq> None \<and> tz_minute z = None \<and> IsMinute n)"

definition tz_IsUTC :: "TimeZoneComposer \<Rightarrow> bool" where
  "tz_IsUTC z = (tz_hour z = Some 0 \<and> tz_minute z = Some 0)"

definition ReadMilliseconds :: "int \<Rightarrow> nat \<Rightarrow> int" where
  "ReadMilliseconds n len =
     (if len = 1 then n * 100
      else if len = 2 then n * 10
      else if 3 < len then n div 10 ^ (min len 9 - 3)
      else n)"

text \<open>The token at the head of the input; past its end that is \<open>EndOfInput\<close>.\<close>

definition Peek :: "DateToken list \<Rightarrow> DateToken" where
  "Peek ts = (case ts of [] \<Rightarrow> EndOfInput | t # _ \<Rightarrow> t)"

definition IsNumber :: "DateToken \<Rightarrow> bool" where
  "IsNumber t = (case t of Number v len \<Rightarrow> True | _ \<Rightarrow> False)"

definition IsFixedNumber :: "nat \<Rightarrow> DateToken \<Rightarrow> bool" where
  "IsFixedNumber n t = (case t of Number v len \<Rightarrow> len = n | _ \<Rightarrow> False)"

definition token_number :: "DateToken \<Rightarrow> int" where
  "token_number t = (case t of Number v len \<Rightarrow> v | _ \<Rightarrow> 0)"

definition token_length :: "DateToken \<Rightarrow> nat" where
  "token_length t = (case t of Number v len \<Rightarrow> len | _ \<Rightarrow> 0)"

definition IsAsciiSign :: "DateToken \<Rightarrow> bool" where
  "IsAsciiSign t = (t = Symbol CHR ''+'' \<or> t = Symbol CHR ''-'')"

definition ascii_sign :: "DateToken \<Rightarrow> int" where
  "ascii_sign t = (if t = Symbol CHR ''-'' then - 1 else 1)"

definition IsKeywordType :: "KeywordType \<Rightarrow> DateToken \<Rightarrow> bool" where
  "IsKeywordType k t = (case t of Keyword kind v len \<Rightarrow> kind = k | _ \<Rightarrow> False)"

definition IsKeywordZ :: "DateToken \<Rightarrow> bool" where
  "IsKeywordZ t = (case t of Keyword kind v len \<Rightarrow> kind = TIME_ZONE_NAME \<and> len = 1 | _ \<Rightarrow> False)"

text \<open>
  The ISO stage. It ends in one of three ways: with a token it cannot use, which goes to
  the legacy loop together with the numbers read so far (\<open>Unhandled\<close>); with an error
  after the \<open>T\<close> of a time (\<open>Failed\<close>); or at the end of a text in ISO form (\<open>Parsed\<close>),
  which is in UTC when it has neither a time nor a zone. The stage is written here from
  its end to its start: the end, the zone, the time, what follows the date, the month and
  day, the year.
\<close>

datatype ES5Result =
    Unhandled DateToken "DateToken list" DayComposer
  | Failed
  | Parsed DayComposer TimeComposer TimeZoneComposer

definition ES5_done :: "DayComposer \<Rightarrow> TimeComposer \<Rightarrow> TimeZoneComposer \<Rightarrow> ES5Result" where
  "ES5_done d t z =
     Parsed (d \<lparr> is_iso_date := True \<rparr>) t
       (if tz_hour z = None \<and> time_comp t = [] then tz_Set 0 else z)"

definition ES5_zone :: "DateToken list \<Rightarrow> DayComposer \<Rightarrow> TimeComposer \<Rightarrow> ES5Result" where
  "ES5_zone ts d t =
     (if IsKeywordZ (Peek ts) then
        (if Peek (tl ts) = EndOfInput then ES5_done d t (tz_Set 0) else Failed)
      else if Peek ts = Symbol CHR ''+'' \<or> Peek ts = Symbol CHR ''-'' then
        (let sg = (if Peek ts = Symbol CHR ''+'' then 1 else - 1); ts1 = tl ts in
         if IsFixedNumber 4 (Peek ts1) then
           (let hourmin = token_number (Peek ts1);
                hour = hourmin div 100;
                minute = hourmin mod 100 in
            if \<not> IsHour hour \<or> \<not> IsMinute minute then Failed
            else if Peek (tl ts1) = EndOfInput
            then ES5_done d t \<lparr> tz_sign = Some sg, tz_hour = Some hour, tz_minute = Some minute \<rparr>
            else Failed)
         else if \<not> IsFixedNumber 2 (Peek ts1) \<or> \<not> IsHour (token_number (Peek ts1)) then Failed
         else if Peek (tl ts1) \<noteq> Symbol CHR '':'' then Failed
         else
           (let ts3 = tl (tl ts1) in
            if \<not> IsFixedNumber 2 (Peek ts3) \<or> \<not> IsMinute (token_number (Peek ts3)) then Failed
            else if Peek (tl ts3) = EndOfInput
            then ES5_done d t \<lparr> tz_sign = Some sg, tz_hour = Some (token_number (Peek ts1)),
                                 tz_minute = Some (token_number (Peek ts3)) \<rparr>
            else Failed))
      else if Peek ts = EndOfInput then ES5_done d t empty_tz
      else Failed)"

definition ES5_time :: "DateToken list \<Rightarrow> DayComposer \<Rightarrow> ES5Result" where
  "ES5_time ts d =
     (let hour = token_number (Peek ts) in
      if \<not> IsFixedNumber 2 (Peek ts) \<or> \<not> (0 \<le> hour \<and> hour \<le> 24) then Failed
      else if Peek (tl ts) \<noteq> Symbol CHR '':'' then Failed
      else
        (let ts2 = tl (tl ts); minute = token_number (Peek ts2) in
         if \<not> IsFixedNumber 2 (Peek ts2) \<or> \<not> IsMinute minute \<or> (hour = 24 \<and> 0 < minute) then Failed
         else if Peek (tl ts2) = Symbol CHR '':'' then
           (let ts4 = tl (tl ts2); second = token_number (Peek ts4) in
            if \<not> IsFixedNumber 2 (Peek ts4) \<or> \<not> IsSecond second \<or> (hour = 24 \<and> 0 < second)
            then Failed
            else if Peek (tl ts4) = Symbol CHR ''.'' then
              (let ts6 = tl (tl ts4) in
               if \<not> IsNumber (Peek ts6) \<or> (hour = 24 \<and> 0 < token_number (Peek ts6)) then Failed
               else ES5_zone (tl ts6) d
                      \<lparr> time_comp = [hour, minute, second,
                                      ReadMilliseconds (token_number (Peek ts6)) (token_length (Peek ts6))],
                        hour_offset = None \<rparr>)
            else ES5_zone (tl ts4) d \<lparr> time_comp = [hour, minute, second], hour_offset = None \<rparr>)
         else ES5_zone (tl ts2) d \<lparr> time_comp = [hour, minute], hour_offset = None \<rparr>))"

definition ES5_rest :: "DateToken list \<Rightarrow> DayComposer \<Rightarrow> ES5Result" where
  "ES5_rest ts d =
     (if IsKeywordType TIME_SEPARATOR (Peek ts) then ES5_time (tl ts) d
      else if Peek ts = EndOfInput then ES5_done d empty_time empty_tz
      else Unhandled (Peek ts) (tl ts) d)"

definition ES5_month_day :: "DateToken list \<Rightarrow> DayComposer \<Rightarrow> ES5Result" where
  "ES5_month_day ts d =
     (if Peek ts = Symbol CHR ''-'' then
        (let ts1 = tl ts in
         if \<not> IsFixedNumber 2 (Peek ts1) \<or> \<not> IsMonth (token_number (Peek ts1))
         then Unhandled (Peek ts1) (tl ts1) d
         else
           (let d1 = d \<lparr> day_comp := day_comp d @ [token_number (Peek ts1)] \<rparr>; ts2 = tl ts1 in
            if Peek ts2 = Symbol CHR ''-'' then
              (let ts3 = tl ts2 in
               if \<not> IsFixedNumber 2 (Peek ts3) \<or> \<not> IsDay (token_number (Peek ts3))
               then Unhandled (Peek ts3) (tl ts3) d1
               else ES5_rest (tl ts3) (d1 \<lparr> day_comp := day_comp d1 @ [token_number (Peek ts3)] \<rparr>))
            else ES5_rest ts2 d1))
      else ES5_rest ts d)"

definition ParseES5DateTime :: "DateToken list \<Rightarrow> ES5Result" where
  "ParseES5DateTime ts =
     (if IsAsciiSign (Peek ts) then
        (let ts1 = tl ts in
         if \<not> IsFixedNumber 6 (Peek ts1) then Unhandled (Peek ts) ts1 empty_day
         else if ascii_sign (Peek ts) < 0 \<and> token_number (Peek ts1) = 0
         then Unhandled Unknown (tl ts1) empty_day
         else ES5_month_day (tl ts1)
                (empty_day \<lparr> day_comp := [ascii_sign (Peek ts) * token_number (Peek ts1)] \<rparr>))
      else if IsFixedNumber 4 (Peek ts)
      then ES5_month_day (tl ts) (empty_day \<lparr> day_comp := [token_number (Peek ts)] \<rparr>)
      else Unhandled (Peek ts) (tl ts) empty_day)"

text \<open>
  The legacy loop takes one token at a time. A step gives the number of further tokens it
  has used and the new state, or fails. A number followed by a colon belongs to the time;
  after a time or a zone has begun a number continues it; any other number is one of the
  date. A word is a month name, \<open>AM\<close> or \<open>PM\<close> after a time, a zone after a number, or
  else noise, which is allowed only before the first number and not directly before it.
  A sign begins a zone offset after a time or a UTC zone name; after a number any other
  sign or closing parenthesis is an error.
\<close>

record Legacy =
  has_read_number :: bool
  the_day :: DayComposer
  the_time :: TimeComposer
  the_tz :: TimeZoneComposer

definition legacy_number :: "int \<Rightarrow> DateToken list \<Rightarrow> Legacy \<Rightarrow> (nat \<times> Legacy) option" where
  "legacy_number n ts st0 =
     (let st = st0 \<lparr> has_read_number := True \<rparr>; t = the_time st; z = the_tz st; d = the_day st in
      if Peek ts = Symbol CHR '':'' then
        (if Peek (tl ts) = Symbol CHR '':'' then
           (if time_comp t \<noteq> [] then None
            else Some (2, st \<lparr> the_time := t \<lparr> time_comp := [n, 0] \<rparr> \<rparr>))
         else if length (time_comp t) < 4 then
           Some (if Peek (tl ts) = Symbol CHR ''.'' then 2 else 1,
                 st \<lparr> the_time := t \<lparr> time_comp := time_comp t @ [n] \<rparr> \<rparr>)
         else None)
      else
        (let k = (if Peek ts = Symbol CHR ''.'' then 1 else 0); ts1 = drop k ts in
         if k = 1 \<and> time_IsExpecting n t then
           (if \<not> IsNumber (Peek ts1) then None
            else Some (2, st \<lparr> the_time :=
                   time_AddFinal (ReadMilliseconds (token_number (Peek ts1)) (token_length (Peek ts1)))
                     (t \<lparr> time_comp := time_comp t @ [n] \<rparr>) \<rparr>))
         else if tz_IsExpecting n z then Some (k, st \<lparr> the_tz := z \<lparr> tz_minute := Some n \<rparr> \<rparr>)
         else if time_IsExpecting n t then
           (if Peek ts1 = EndOfInput \<or> Peek ts1 = WhiteSpace \<or> IsKeywordZ (Peek ts1)
               \<or> IsAsciiSign (Peek ts1)
            then Some (k, st \<lparr> the_time := time_AddFinal n t \<rparr>)
            else None)
         else if length (day_comp d) < 3 then
           Some (k + (if Peek ts1 = Symbol CHR ''-'' then 1 else 0),
                 st \<lparr> the_day := d \<lparr> day_comp := day_comp d @ [n] \<rparr> \<rparr>)
         else None))"

definition legacy_keyword ::
  "KeywordType \<Rightarrow> int \<Rightarrow> DateToken list \<Rightarrow> Legacy \<Rightarrow> (nat \<times> Legacy) option" where
  "legacy_keyword kind v ts st =
     (if kind = AM_PM \<and> time_comp (the_time st) \<noteq> []
      then Some (0, st \<lparr> the_time := (the_time st) \<lparr> hour_offset := Some v \<rparr> \<rparr>)
      else if kind = MONTH_NAME
      then Some (if Peek ts = Symbol CHR ''-'' then 1 else 0,
                 st \<lparr> the_day := (the_day st) \<lparr> named_month := Some v \<rparr> \<rparr>)
      else if kind = TIME_ZONE_NAME \<and> has_read_number st then Some (0, st \<lparr> the_tz := tz_Set v \<rparr>)
      else if has_read_number st \<or> IsNumber (Peek ts) then None
      else Some (0, st))"

definition legacy_sign :: "DateToken \<Rightarrow> DateToken list \<Rightarrow> Legacy \<Rightarrow> (nat \<times> Legacy) option" where
  "legacy_sign token ts st0 =
     (let k = (if IsNumber (Peek ts) then 1 else 0);
          n = token_number (Peek ts);
          len = token_length (Peek ts);
          ts1 = drop k ts;
          st = st0 \<lparr> has_read_number := True \<rparr>;
          z = (the_tz st) \<lparr> tz_sign := Some (ascii_sign token) \<rparr>
      in if Peek ts1 = Symbol CHR '':''
         then Some (k, st \<lparr> the_tz := z \<lparr> tz_hour := Some n, tz_minute := None \<rparr> \<rparr>)
         else if len = 2 \<or> len = 1
         then Some (k, st \<lparr> the_tz := z \<lparr> tz_hour := Some n, tz_minute := Some 0 \<rparr> \<rparr>)
         else if len = 4 \<or> len = 3
         then Some (k, st \<lparr> the_tz := z \<lparr> tz_hour := Some (n div 100), tz_minute := Some (n mod 100) \<rparr> \<rparr>)
         else None)"

definition legacy_step :: "DateToken \<Rightarrow> DateToken list \<Rightarrow> Legacy \<Rightarrow> (nat \<times> Legacy) option" where
  "legacy_step token ts st =
     (case token of
        Number n len \<Rightarrow> legacy_number n ts st
      | Keyword kind v len \<Rightarrow> legacy_keyword kind v ts st
      | _ \<Rightarrow>
          if IsAsciiSign token \<and> (tz_IsUTC (the_tz st) \<or> time_comp (the_time st) \<noteq> [])
          then legacy_sign token ts st
          else if (IsAsciiSign token \<or> token = Symbol CHR '')'') \<and> has_read_number st then None
          else Some (0, st))"

fun legacy_loop :: "DateToken list \<Rightarrow> Legacy \<Rightarrow> Legacy option" where
  "legacy_loop [] st = Some st"
| "legacy_loop (token # ts) st =
     (if token = EndOfInput then Some st
      else (case legacy_step token ts st of
              None \<Rightarrow> None
            | Some (k, st') \<Rightarrow> legacy_loop (drop k ts) st'))"

text \<open>
  The fields the composers give. Missing numbers of the date are 1. With a month name
  the two numbers are day and year, the year first when it cannot be a day. Without one,
  three numbers are year, month, day in ISO form or when the first cannot be a day, and
  month, day, year otherwise. Outside the ISO form a year below 50 is counted from 2000
  and a year from 50 to 99 from 1900. The zone offset is in seconds, computed in 32 bits.
\<close>

definition day_Write :: "DayComposer \<Rightarrow> (int \<times> int \<times> int) option" where
  "day_Write d =
     (if day_comp d = [] then None
      else
        (let c = day_comp d @ replicate (3 - length (day_comp d)) 1;
             (year, month, dy) =
               (case named_month d of
                  None \<Rightarrow>
                    if is_iso_date d \<or> \<not> IsDay (c ! 0) then (c ! 0, c ! 1, c ! 2)
                    else (c ! 2, c ! 0, c ! 1)
                | Some m \<Rightarrow>
                    if \<not> IsDay (c ! 0) then (c ! 0, m, c ! 1) else (c ! 1, m, c ! 0));
             full = (if is_iso_date d then year
                     else if 0 \<le> year \<and> year \<le> 49 then year + 2000
                     else if 50 \<le> year \<and> year \<le> 99 then year + 1900
                     else year)
         in if IsMonth month \<and> IsDay dy then Some (full, month - 1, dy) else None))"

definition time_Write :: "TimeComposer \<Rightarrow> (int \<times> int \<times> int \<times> int) option" where
  "time_Write t =
     (let c = time_comp t @ replicate (4 - length (time_comp t)) 0;
          minute = c ! 1; second = c ! 2; ms = c ! 3 in
      if hour_offset t \<noteq> None \<and> \<not> IsHour12 (c ! 0) then None
      else
        (let hour = (case hour_offset t of None \<Rightarrow> c ! 0 | Some off \<Rightarrow> (c ! 0) mod 12 + off) in
         if (IsHour hour \<and> IsMinute minute \<and> IsSecond second \<and> IsMillisecond ms)
            \<or> (hour = 24 \<and> minute = 0 \<and> second = 0 \<and> ms = 0)
         then Some (hour, minute, second, ms)
         else None))"

definition tz_Write :: "TimeZoneComposer \<Rightarrow> int option option" where
  "tz_Write z =
     (case tz_sign z of
        None \<Rightarrow> Some None
      | Some sg \<Rightarrow>
          (let seconds = ((case tz_hour z of None \<Rightarrow> 0 | Some h \<Rightarrow> h) * 3600
                          + (case tz_minute z of None \<Rightarrow> 0 | Some m \<Rightarrow> m) * 60) mod 4294967296
           in if 2147483647 < seconds then None else Some (Some (sg * seconds))))"

definition DateParser_Parse ::
  "DateToken list \<Rightarrow> ((int \<times> int \<times> int) \<times> (int \<times> int \<times> int \<times> int) \<times> int option) option" where
  "DateParser_Parse ts =
     (case (case ParseES5DateTime ts of
              Failed \<Rightarrow> None
            | Parsed d t z \<Rightarrow>
                Some \<lparr> has_read_number = True, the_day = d, the_time = t, the_tz = z \<rparr>
            | Unhandled token rest d \<Rightarrow>
                legacy_loop (token # rest)
                  \<lparr> has_read_number = (day_comp d \<noteq> []), the_day = d,
                    the_time = empty_time, the_tz = empty_tz \<rparr>) of
        None \<Rightarrow> None
      | Some st \<Rightarrow>
          (case (day_Write (the_day st), time_Write (the_time st), tz_Write (the_tz st)) of
             (Some d, Some t, Some z) \<Rightarrow> Some (d, t, z)
           | _ \<Rightarrow> None))"

text \<open>
  The time value of the fields: in the given zone, or else in local time if it is within
  a month of the range of time values. The text ends at its first NUL character, if it
  has one.
\<close>

definition MakeTime :: "int \<Rightarrow> int \<Rightarrow> int \<Rightarrow> int \<Rightarrow> int" where
  "MakeTime hour minute second ms = hour * 3600000 + minute * 60000 + second * 1000 + ms"

definition Date_parse :: "int \<Rightarrow> string \<Rightarrow> time_value" where
  "Date_parse tza s =
     (case DateParser_Parse (tokens (takeWhile (\<lambda>c. (of_char c :: nat) \<noteq> 0) s)) of
        None \<Rightarrow> None
      | Some ((year, month, dy), (hour, minute, second, ms), offset) \<Rightarrow>
          (case MakeDate (MakeDay (Some year) (Some month) (Some dy))
                  (Some (MakeTime hour minute second ms)) of
             None \<Rightarrow> None
           | Some date \<Rightarrow>
               (case offset of
                  None \<Rightarrow>
                    if \<bar>date\<bar> \<le> 8640000000000000 + 2592000000 then TimeClip (Some (UTC tza date))
                    else None
                | Some seconds \<Rightarrow> TimeClip (Some (date - seconds * 1000)))))"

text \<open>A string that may be missing, in a template or a concatenation.\<close>

definition text_or_undefined :: "string option \<Rightarrow> string" where
  "text_or_undefined v = (case v of None \<Rightarrow> ''undefined'' | Some s \<Rightarrow> s)"

section \<open>Reading the input dates\<close>

text \<open>\<^verbatim>\<open>formatDateToISO(dateStr)\<close>: \<open>DD-MMM-YYYY\<close> to \<open>YYYY-MM-DD\<close>.\<close>

definition formatDateToISO :: "int \<Rightarrow> string \<Rightarrow> string" where
  "formatDateToISO tza dateStr =
     (let parts = split CHR ''-'' dateStr;
          day = element parts 0;
          monthStr = element parts 1;
          year = element parts 2;
          month = getMonth tza (Date_parse tza (text_or_undefined monthStr @ '' 1, 2020''));
          date = Date_fields tza (to_number year) (int_number month) (to_number day);
          yearFormatted = number_text (getFullYear tza date);
          monthFormatted = padStart0 2 (number_text (map_option (\<lambda>m. m + 1) (getMonth tza date)));
          dayFormatted = padStart0 2 (number_text (getDate tza date))
      in yearFormatted @ ''-'' @ monthFormatted @ ''-'' @ dayFormatted)"

section \<open>Preparing the training data\<close>

text \<open>
  A cell of a parsed row is a string, or some other value (a number, a boolean, \<open>null\<close>,
  \<open>undefined\<close>): calling a string method on the latter raises \<open>TypeError\<close>.
\<close>

datatype cell = Text string | NotText

record csv_row =
  row_Date :: cell
  row_close :: cell

record prepared =
  p_xs :: "number list"
  p_ys :: "number list"
  p_minDate :: number
  p_maxDate :: number
  p_minPrice :: number
  p_maxPrice :: number

text \<open>\<open>xs.map(f)\<close> where \<open>f\<close> may raise: the first error ends the map.\<close>

fun map_result :: "('a \<Rightarrow> error + 'b) \<Rightarrow> 'a list \<Rightarrow> error + 'b list" where
  "map_result f [] = Inr []"
| "map_result f (x # rest) =
     (case f x of
        Inl e \<Rightarrow> Inl e
      | Inr y \<Rightarrow> (case map_result f rest of Inl e \<Rightarrow> Inl e | Inr ys \<Rightarrow> Inr (y # ys)))"

text \<open>
  \<open>new Date(formatDateToISO(row.Date)).getTime()\<close> and
  \<open>parseFloat(row["close"].replace(/,/g, ""))\<close> on a cell that is a string.
\<close>

definition date_value :: "int \<Rightarrow> string \<Rightarrow> number" where
  "date_value tza s = getTime (Date_parse tza (formatDateToISO tza s))"

definition strip_commas :: "string \<Rightarrow> string" where
  "strip_commas s = filter (\<lambda>c. c \<noteq> CHR '','') s"

definition price_value :: "string \<Rightarrow> number" where
  "price_value s = parseFloat (strip_commas s)"

definition parse_date :: "int \<Rightarrow> csv_row \<Rightarrow> error + number" where
  "parse_date tza row =
     (case row_Date row of
        NotText \<Rightarrow> Inl TypeError
      | Text s \<Rightarrow> Inr (date_value tza s))"

definition parse_price :: "csv_row \<Rightarrow> error + number" where
  "parse_price row =
     (case row_close row of
        NotText \<Rightarrow> Inl TypeError
      | Text s \<Rightarrow> Inr (price_value s))"

text \<open>\<open>Math.max(...xs)\<close> and \<open>Math.min(...xs)\<close>.\<close>

fun js_max2 :: "number \<Rightarrow> number \<Rightarrow> number" where
  "js_max2 NaN _ = NaN"
| "js_max2 _ NaN = NaN"
| "js_max2 PInf _ = PInf"
| "js_max2 _ PInf = PInf"
| "js_max2 NInf y = y"
| "js_max2 x NInf = x"
| "js_max2 (Fin a) (Fin b) = Fin (max a b)"

fun js_min2 :: "number \<Rightarrow> number \<Rightarrow> number" where
  "js_min2 NaN _ = NaN"
| "js_min2 _ NaN = NaN"
| "js_min2 NInf _ = NInf"
| "js_min2 _ NInf = NInf"
| "js_min2 PInf y = y"
| "js_min2 x PInf = x"
| "js_min2 (Fin a) (Fin b) = Fin (min a b)"

definition Math_max :: "number list \<Rightarrow> number" where
  "Math_max vs = foldl js_max2 NInf vs"

definition Math_min :: "number list \<Rightarrow> number" where
  "Math_min vs = foldl js_min2 PInf vs"

definition normalize :: "number \<Rightarrow> number \<Rightarrow> number \<Rightarrow> number" where
  "normalize v lo hi = js_div (js_sub v lo) (js_sub hi lo)"

text \<open>
  \<^verbatim>\<open>prepareData(data)\<close>. A tensor is the list of its values, here the exact ones; the
  rounding of the scaling and of the tensor is the subject of the section on machine
  arithmetic.
\<close>

definition prepareData :: "int \<Rightarrow> csv_row list \<Rightarrow> error + prepared" where
  "prepareData tza data =
     (case map_result (parse_date tza) data of
        Inl e \<Rightarrow> Inl e
      | Inr dates \<Rightarrow>
          (case map_result parse_price data of
             Inl e \<Rightarrow> Inl e
           | Inr prices \<Rightarrow>
               if list_ex isNaN dates \<or> list_ex isNaN prices
               then Inl (Error ''Data contains NaN values'')
               else (let maxDate = Math_max dates;
                         minDate = Math_min dates;
                         maxPrice = Math_max prices;
                         minPrice = Math_min prices
                     in Inr \<lparr> p_xs = map (\<lambda>date. normalize date minDate maxDate) dates,
                              p_ys = map (\<lambda>price. normalize price minPrice maxPrice) prices,
                              p_minDate = minDate, p_maxDate = maxDate,
                              p_minPrice = minPrice, p_maxPrice = maxPrice \<rparr>)))"

section \<open>Error metrics\<close>




section \<open>Forecast prices\<close>




section \<open>The scaling in machine arithmetic\<close>

text \<open>
  The operators of the first section are exact on finite values. The scaling and its
  inverse are where a property depends on the rounding, so they are given here once more
  with it. Every operation on doubles returns the double nearest to the exact result, of
  two nearest ones the one with the even last bit, and an infinity when that is beyond
  the largest double. A value stored in a tensor is converted to single precision in the
  same way: \<open>tf.tensor2d\<close> holds 32-bit floats, and \<open>arraySync\<close> returns them as doubles,
  unchanged.

  \<open>rne x\<close> is the whole number nearest to \<open>x\<close>, the even one of two. \<open>binade x\<close> is the
  exponent \<open>e\<close> with \<open>2^e \<le> |x| < 2^(e+1)\<close>. \<open>round_to p emin x\<close> is \<open>x\<close> rounded to \<open>p\<close>
  significant bits, the last of them at exponent \<open>emin - p + 1\<close> at the lowest (the
  subnormal numbers), and \<open>to_format\<close> adds the overflow beyond exponent \<open>emax\<close>.
\<close>

definition rne :: "real \<Rightarrow> int" where
  "rne x =
     (let f = \<lfloor>x\<rfloor>; r = x - real_of_int f in
      if r < 1 / 2 then f else if 1 / 2 < r then f + 1 else if even f then f else f + 1)"

definition binade :: "real \<Rightarrow> int" where
  "binade x = (if x = 0 then 0 else \<lfloor>log 2 \<bar>x\<bar>\<rfloor>)"

definition round_to :: "nat \<Rightarrow> int \<Rightarrow> real \<Rightarrow> real" where
  "round_to p emin x =
     (let e = max (binade x) emin; q = 2 powr real_of_int (e - int p + 1)
      in real_of_int (rne (x / q)) * q)"

definition to_format :: "nat \<Rightarrow> int \<Rightarrow> int \<Rightarrow> real \<Rightarrow> number" where
  "to_format p emin emax x =
     (let r = round_to p emin x in
      if 2 powr real_of_int (emax + 1) \<le> \<bar>r\<bar> then signed_inf (x < 0) else Fin r)"

definition binary64 :: "real \<Rightarrow> number" where
  "binary64 x = to_format 53 (- 1022) 1023 x"

definition binary32 :: "real \<Rightarrow> number" where
  "binary32 x = to_format 24 (- 126) 127 x"

definition rounded :: "(real \<Rightarrow> number) \<Rightarrow> number \<Rightarrow> number" where
  "rounded fmt x = (case x of Fin r \<Rightarrow> fmt r | _ \<Rightarrow> x)"

text \<open>
  \<open>normalize(value, min, max)\<close> of \<^verbatim>\<open>prepareData\<close> (the same expression scales the dates
  in \<^verbatim>\<open>predictPrices\<close>), an element of \<open>tf.tensor2d(values)\<close> as \<open>arraySync\<close> reads it back,
  and the inverse \<open>x * (max - min) + min\<close> of \<^verbatim>\<open>predictPrices\<close> and \<open>main\<close>. \<open>round_trip\<close> is
  what \<open>main\<close> computes back from a scaled value it has stored:
  \<open>ys.arraySync().map((price) => price[0] * (maxPrice - minPrice) + minPrice)\<close>.
\<close>

definition normalize_fl :: "number \<Rightarrow> number \<Rightarrow> number \<Rightarrow> number" where
  "normalize_fl v lo hi =
     rounded binary64 (js_div (rounded binary64 (js_sub v lo)) (rounded binary64 (js_sub hi lo)))"

definition tensor2d :: "number \<Rightarrow> number" where
  "tensor2d x = rounded binary32 x"

definition denormalize_fl :: "number \<Rightarrow> number \<Rightarrow> number \<Rightarrow> number" where
  "denormalize_fl x lo hi =
     rounded binary64 (js_add (rounded binary64 (js_mul x (rounded binary64 (js_sub hi lo)))) lo)"

definition round_trip :: "number \<Rightarrow> number \<Rightarrow> number \<Rightarrow> number" where
  "round_trip v lo hi = denormalize_fl (tensor2d (normalize_fl v lo hi)) lo hi"

section \<open>Writing the result table\<close>










section \<open>The next thirty weekdays\<close>

text \<open>
  \<^verbatim>\<open>getNext30Weekdays(startDate)\<close>. The loop is a function that may not return: \<open>None\<close>
  stands for a run that never ends, \<open>Some (Inl e)\<close> for the error \<open>e\<close> raised, and
  \<open>Some (Inr weekdays)\<close> for the array returned. The day of the week and the step to the
  next day are taken in local time, the text of the date in UTC.
\<close>

definition first_piece :: "string list \<Rightarrow> string" where
  "first_piece ps = (case ps of [] \<Rightarrow> ''undefined'' | p # _ \<Rightarrow> p)"

partial_function (option) weekdays_loop ::
  "int \<Rightarrow> string list \<Rightarrow> time_value \<Rightarrow> (error + string list) option" where
  "weekdays_loop tza weekdays currentDate =
     (if length weekdays < 30 then
        (let dayOfWeek = getDay tza currentDate;
             next_day = setDate tza currentDate (map_option (\<lambda>n. n + 1) (getDate tza currentDate))
         in if dayOfWeek \<noteq> Some 0 \<and> dayOfWeek \<noteq> Some 6
            then (case toISOString currentDate of
                    Inl e \<Rightarrow> Some (Inl e)
                  | Inr isoText \<Rightarrow>
                      weekdays_loop tza (weekdays @ [first_piece (split CHR ''T'' isoText)]) next_day)
            else weekdays_loop tza weekdays next_day)
      else Some (Inr weekdays))"

definition getNext30Weekdays :: "int \<Rightarrow> time_value \<Rightarrow> (error + string list) option" where
  "getNext30Weekdays tza startDate = weekdays_loop tza [] (Date_copy startDate)"

text \<open>
  The same loop, run for at most \<open>fuel\<close> iterations: \<open>None\<close> when the iterations are used
  up before the loop ends.
\<close>

fun weekdays_run ::
  "nat \<Rightarrow> int \<Rightarrow> string list \<Rightarrow> time_value \<Rightarrow> (error + string list) option" where
  "weekdays_run fuel tza weekdays currentDate =
     (if length weekdays < 30 then
        (case fuel of
           0 \<Rightarrow> None
         | Suc n \<Rightarrow>
             (let dayOfWeek = getDay tza currentDate;
                  next_day = setDate tza currentDate (map_option (\<lambda>n. n + 1) (getDate tza currentDate))
              in if dayOfWeek \<noteq> Some 0 \<and> dayOfWeek \<noteq> Some 6
                 then (case toISOString currentDate of
                         Inl e \<Rightarrow> Some (Inl e)
                       | Inr isoText \<Rightarrow>
                           weekdays_run n tza (weekdays @ [first_piece (split CHR ''T'' isoText)]) next_day)
                 else weekdays_run n tza weekdays next_day))
      else Some (Inr weekdays))"

section \<open>Notions the properties are stated with\<close>

text \<open>
  The day a text \<open>YYYY-MM-DD\<close> names, as the time value of its midnight in UTC: the
  date-only form of the language's own date-time format, with four digits for the year
  or a sign and six. As V8 reads the form, a day from 1 to 31 is taken in every month and
  carried over into the next one. Any other text names no day here. Where this gives a
  time value, \<open>Date_parse\<close> gives the same one in every zone (lemma
  \<open>Date_parse_iso_agrees\<close>).
\<close>

definition iso_fields :: "string \<Rightarrow> string \<Rightarrow> string \<Rightarrow> time_value" where
  "iso_fields ytext mtext dtext =
     (let m = int (digits_value mtext); d = int (digits_value dtext) in
      if list_all is_digit mtext \<and> list_all is_digit dtext \<and> 1 \<le> m \<and> m \<le> 12 \<and> 1 \<le> d \<and> d \<le> 31
      then (let y = (case ytext of
                       c # r \<Rightarrow> if c = CHR ''-'' then - int (digits_value r)
                                else if c = CHR ''+'' then int (digits_value r)
                                else int (digits_value ytext)
                     | [] \<Rightarrow> 0)
            in TimeClip (MakeDate (MakeDay (Some y) (Some (m - 1)) (Some d)) (Some 0)))
      else None)"

definition Date_parse_iso :: "string \<Rightarrow> time_value" where
  "Date_parse_iso s =
     (if length s = 10 \<and> s ! 4 = CHR ''-'' \<and> s ! 7 = CHR ''-'' \<and> list_all is_digit (take 4 s)
      then iso_fields (take 4 s) (take 2 (drop 5 s)) (drop 8 s)
      else if length s = 13 \<and> (s ! 0 = CHR ''+'' \<or> s ! 0 = CHR ''-'') \<and> s ! 7 = CHR ''-''
              \<and> s ! 10 = CHR ''-'' \<and> list_all is_digit (take 6 (drop 1 s))
              \<and> take 7 s \<noteq> ''-000000''
      then iso_fields (take 7 s) (take 2 (drop 8 s)) (drop 11 s)
      else None)"

text \<open>
  The date part of \<open>toISOString\<close>; whether an instant falls on Monday to Friday in local
  time; and the instants \<open>t\<close>, \<open>t\<close> plus one day, ..., \<open>n\<close> of them, which the loop scans.
\<close>

definition utc_date_text :: "int \<Rightarrow> string" where
  "utc_date_text t =
     year_text (YearFromTime t) @ ''-'' @ pad_int 2 (MonthFromTime t + 1) @ ''-''
       @ pad_int 2 (DateFromTime t)"

definition local_weekday :: "int \<Rightarrow> int \<Rightarrow> bool" where
  "local_weekday tza t = (WeekDay (LocalTime tza t) \<noteq> 0 \<and> WeekDay (LocalTime tza t) \<noteq> 6)"

fun days_from :: "nat \<Rightarrow> int \<Rightarrow> int list" where
  "days_from 0 t = []"
| "days_from (Suc n) t = t # days_from n (t + msPerDay)"

text \<open>
  The number of days of month \<open>m\<close> (counted from 0) of year \<open>y\<close>, and the English
  three-letter abbreviations of the months, which the input dates are written with.
\<close>

definition DaysInMonth :: "int \<Rightarrow> int \<Rightarrow> int" where
  "DaysInMonth y m =
     (if m = 1 then (if DaysInYear y = 366 then 29 else 28)
      else if m = 3 \<or> m = 5 \<or> m = 8 \<or> m = 10 then 30
      else 31)"

definition month_abbr :: "string list" where
  "month_abbr = [''Jan'', ''Feb'', ''Mar'', ''Apr'', ''May'', ''Jun'',
                 ''Jul'', ''Aug'', ''Sep'', ''Oct'', ''Nov'', ''Dec'']"





text \<open>
  The numbers of a format with \<open>p\<close> significant bits and least exponent \<open>emin\<close> are whole
  multiples of its smallest positive number.
\<close>

definition on_grid :: "nat \<Rightarrow> int \<Rightarrow> real \<Rightarrow> bool" where
  "on_grid p emin x =
     (let y = x / 2 powr real_of_int (emin - int p + 1) in real_of_int \<lfloor>y\<rfloor> = y)"

text \<open>
  The days the loop takes from a start \<open>t\<close>, counted from it: the first thirty, among the
  first forty-two, that fall on Monday to Friday in local time.
\<close>

definition scanned :: "int \<Rightarrow> int \<Rightarrow> nat list" where
  "scanned tza t = filter (\<lambda>k. local_weekday tza (t + int k * msPerDay)) [0..<42]"

section \<open>Properties of the forecast prices\<close>





section \<open>Properties of the error metrics\<close>











section \<open>The calendar\<close>

lemma div_succ:
  fixes x k :: int
  assumes "0 < k"
  shows "(x + 1) div k = (if (x + 1) mod k = 0 then x div k + 1 else x div k)"
proof (cases "x mod k = k - 1")
  case True
  have e: "x + 1 = k * (x div k + 1) + 0"
    using mult_div_mod_eq [of k x] True by (simp add: algebra_simps)
  have "(x + 1) div k = x div k + 1"
    by (rule int_div_pos_eq [OF e]) (use assms in simp_all)
  moreover have "(x + 1) mod k = 0"
    by (rule int_mod_pos_eq [OF e]) (use assms in simp_all)
  ultimately show ?thesis by simp
next
  case False
  have r: "0 \<le> x mod k + 1" "x mod k + 1 < k"
    using pos_mod_sign [OF assms, of x] pos_mod_bound [OF assms, of x] False by linarith+
  have e: "x + 1 = k * (x div k) + (x mod k + 1)"
    using mult_div_mod_eq [of k x] by simp
  have "(x + 1) div k = x div k"
    by (rule int_div_pos_eq [OF e r])
  moreover have "(x + 1) mod k = x mod k + 1"
    by (rule int_mod_pos_eq [OF e r])
  ultimately show ?thesis using pos_mod_sign [OF assms, of x] by simp
qed

lemma DayFromYear_step: "DayFromYear (y + 1) = DayFromYear y + DaysInYear y"
proof -
  have m4: "(y - 1969 + 1) mod 4 = y mod 4"
    using mod_mult_self2 [of y 4 "-492"] by (simp add: algebra_simps)
  have m100: "(y - 1901 + 1) mod 100 = y mod 100"
    using mod_mult_self2 [of y 100 "-19"] by (simp add: algebra_simps)
  have m400: "(y - 1601 + 1) mod 400 = y mod 400"
    using mod_mult_self2 [of y 400 "-4"] by (simp add: algebra_simps)
  have a: "(y + 1 - 1969) div 4 = (if y mod 4 = 0 then (y - 1969) div 4 + 1 else (y - 1969) div 4)"
    using div_succ [of 4 "y - 1969"] unfolding m4 by (simp add: algebra_simps)
  have b: "(y + 1 - 1901) div 100 = (if y mod 100 = 0 then (y - 1901) div 100 + 1 else (y - 1901) div 100)"
    using div_succ [of 100 "y - 1901"] unfolding m100 by (simp add: algebra_simps)
  have c: "(y + 1 - 1601) div 400 = (if y mod 400 = 0 then (y - 1601) div 400 + 1 else (y - 1601) div 400)"
    using div_succ [of 400 "y - 1601"] unfolding m400 by (simp add: algebra_simps)
  have d1: "y mod 100 = 0 \<Longrightarrow> y mod 4 = 0"
    using mod_mod_cancel [of 4 100 y] by simp
  have d2: "y mod 400 = 0 \<Longrightarrow> y mod 100 = 0"
    using mod_mod_cancel [of 100 400 y] by simp
  show ?thesis
    unfolding DayFromYear_def DaysInYear_def a b c using d1 d2 by auto
qed

lemma DaysInYear_pos: "365 \<le> DaysInYear y" "DaysInYear y \<le> 366"
  unfolding DaysInYear_def by simp_all

lemma int_div_bounds:
  fixes a b :: int
  assumes "0 < b"
  shows "b * (a div b) \<le> a" and "a < b * (a div b) + b"
  using mult_div_mod_eq [of b a] pos_mod_sign [OF assms, of a] pos_mod_bound [OF assms, of a]
  by linarith+

lemma DayFromYear_bounds:
  "146097 * (y - 1970) - 506 \<le> 400 * DayFromYear y"
  "400 * DayFromYear y \<le> 146097 * (y - 1970) + 589"
proof -
  define a where "a = (y - 1969) div 4"
  define b where "b = (y - 1901) div 100"
  define c where "c = (y - 1601) div 400"
  have a: "4 * a \<le> y - 1969" "y - 1969 < 4 * a + 4"
    unfolding a_def using int_div_bounds [of 4 "y - 1969"] by simp_all
  have b: "100 * b \<le> y - 1901" "y - 1901 < 100 * b + 100"
    unfolding b_def using int_div_bounds [of 100 "y - 1901"] by simp_all
  have c: "400 * c \<le> y - 1601" "y - 1601 < 400 * c + 400"
    unfolding c_def using int_div_bounds [of 400 "y - 1601"] by simp_all
  have d: "400 * DayFromYear y = 146000 * y - 287620000 + 400 * a - 400 * b + 400 * c"
    unfolding DayFromYear_def a_def b_def c_def by simp
  have e: "146097 * (y - 1970) = 146097 * y - 287811090"
    by simp
  show "146097 * (y - 1970) - 506 \<le> 400 * DayFromYear y"
    unfolding d e using a b c by linarith
  show "400 * DayFromYear y \<le> 146097 * (y - 1970) + 589"
    unfolding d e using a b c by linarith
qed

lemma YearFromDay_bounds:
  "DayFromYear (YearFromDay d) \<le> d \<and> d < DayFromYear (YearFromDay d + 1)"
proof -
  define y where "y = 1970 + (400 * d) div 146097"
  have e1: "146097 * (y - 1970) \<le> 400 * d"
    unfolding y_def using int_div_bounds(1) [of 146097 "400 * d"] by simp
  have e2: "400 * d < 146097 * (y - 1970) + 146097"
    unfolding y_def using int_div_bounds(2) [of 146097 "400 * d"] by simp
  have b1: "400 * DayFromYear (y - 1) \<le> 146097 * (y - 1970) - 146097 + 589"
    using DayFromYear_bounds(2) [of "y - 1"] by simp
  have b2: "146097 * (y - 1970) + 292194 - 506 \<le> 400 * DayFromYear (y + 2)"
    using DayFromYear_bounds(1) [of "y + 2"] by simp
  have lo: "DayFromYear (y - 1) \<le> d"
    using b1 e1 by linarith
  have hi: "d < DayFromYear (y + 2)"
    using b2 e2 by linarith
  have s1: "DayFromYear y = DayFromYear (y - 1) + DaysInYear (y - 1)"
    using DayFromYear_step [of "y - 1"] by simp
  have s2: "DayFromYear (y + 2) = DayFromYear (y + 1) + DaysInYear (y + 1)"
    using DayFromYear_step [of "y + 1"] by (simp add: add.assoc)
  show ?thesis
  proof (cases "d < DayFromYear y")
    case True
    then have "YearFromDay d = y - 1"
      by (simp add: YearFromDay_def Let_def y_def)
    then show ?thesis using lo True by simp
  next
    case False
    show ?thesis
    proof (cases "DayFromYear (y + 1) \<le> d")
      case True
      then have "YearFromDay d = y + 1"
        using False by (simp add: YearFromDay_def Let_def y_def)
      then show ?thesis using True hi by (simp add: add.assoc)
    next
      case F2: False
      then have "YearFromDay d = y"
        using False by (simp add: YearFromDay_def Let_def y_def)
      then show ?thesis using False F2 by simp
    qed
  qed
qed

lemma DayFromYear_mono_nat: "DayFromYear y \<le> DayFromYear (y + int n)"
proof (induction n)
  case 0
  show ?case by simp
next
  case (Suc n)
  have "DayFromYear (y + int (Suc n)) = DayFromYear (y + int n) + DaysInYear (y + int n)"
    using DayFromYear_step [of "y + int n"] by (simp add: algebra_simps)
  then show ?case using Suc DaysInYear_pos(1) [of "y + int n"] by linarith
qed

lemma DayFromYear_mono: "y \<le> y' \<Longrightarrow> DayFromYear y \<le> DayFromYear y'"
  using DayFromYear_mono_nat [of y "nat (y' - y)"] by simp

lemma YearFromDay_unique:
  assumes "DayFromYear y \<le> d" and "d < DayFromYear (y + 1)"
  shows "YearFromDay d = y"
proof -
  let ?z = "YearFromDay d"
  have b: "DayFromYear ?z \<le> d" "d < DayFromYear (?z + 1)"
    using YearFromDay_bounds by auto
  have "\<not> ?z + 1 \<le> y"
    using DayFromYear_mono [of "?z + 1" y] assms b by linarith
  moreover have "\<not> y + 1 \<le> ?z"
    using DayFromYear_mono [of "y + 1" ?z] assms b by linarith
  ultimately show ?thesis by linarith
qed

lemma YearFromDay_largest: "DayFromYear y \<le> d \<longleftrightarrow> y \<le> YearFromDay d"
proof
  assume "DayFromYear y \<le> d"
  then have "\<not> YearFromDay d + 1 \<le> y"
    using DayFromYear_mono [of "YearFromDay d + 1" y] YearFromDay_bounds [of d] by linarith
  then show "y \<le> YearFromDay d" by linarith
next
  assume "y \<le> YearFromDay d"
  then show "DayFromYear y \<le> d"
    using DayFromYear_mono [of y "YearFromDay d"] YearFromDay_bounds [of d] by linarith
qed

section \<open>The loop over the days\<close>

lemma MonthFromTime_range: "0 \<le> MonthFromTime t \<and> MonthFromTime t \<le> 11"
  by (simp add: MonthFromTime_def Let_def)

lemma Day_of_fields:
  "DayFromMonth (YearFromTime t) (MonthFromTime t) + DateFromTime t - 1 = Day t"
  unfolding DayFromMonth_def DateFromTime_def Let_def InLeapYear_def DayWithinYear_def
  by simp

lemma MakeDay_next:
  "MakeDay (Some (YearFromTime t)) (Some (MonthFromTime t)) (Some (DateFromTime t + 1))
     = Some (Day t + 1)"
proof -
  have "MonthFromTime t div 12 = 0" and "MonthFromTime t mod 12 = MonthFromTime t"
    using MonthFromTime_range [of t] by simp_all
  then show ?thesis
    using Day_of_fields [of t] by (simp add: MakeDay_def)
qed

lemma Day_TimeWithinDay: "Day t * msPerDay + TimeWithinDay t = t"
  by (simp add: Day_def TimeWithinDay_def)

lemma setDate_next:
  "setDate tza (Some t) (map_option (\<lambda>n. n + 1) (getDate tza (Some t)))
     = TimeClip (Some (t + msPerDay))"
proof -
  have "(Day (t + tza) + 1) * msPerDay + TimeWithinDay (t + tza) - tza = t + msPerDay"
    using Day_TimeWithinDay [of "t + tza"] by (simp add: algebra_simps)
  then show ?thesis
    by (simp add: setDate_def getDate_def Let_def LocalTime_def UTC_def MakeDay_next MakeDate_def)
qed

lemma Day_next: "Day (t + msPerDay) = Day t + 1"
  by (simp add: Day_def msPerDay_def)

lemma WeekDay_next: "WeekDay (t + msPerDay) = (WeekDay t + 1) mod 7"
  unfolding WeekDay_def Day_next by (simp add: mod_simps algebra_simps)

declare show_nat.simps [simp del]

lemma digit_char_is_digit: "n < 10 \<Longrightarrow> is_digit (digit_char n)"
proof -
  have "list_all is_digit ''0123456789''"
    by (simp add: is_digit_def)
  then show "n < 10 \<Longrightarrow> is_digit (digit_char n)"
    unfolding digit_char_def list_all_length by simp
qed

lemma show_nat_digits: "list_all is_digit (show_nat n)"
proof (induction n rule: show_nat.induct)
  case (1 n)
  show ?case
  proof (cases "n < 10")
    case True
    then show ?thesis
      by (subst show_nat.simps) (simp add: digit_char_is_digit)
  next
    case False
    then show ?thesis
      using 1 by (subst show_nat.simps) (simp add: digit_char_is_digit)
  qed
qed

lemma padStart0_digits: "list_all is_digit s \<Longrightarrow> list_all is_digit (padStart0 n s)"
  by (auto simp: padStart0_def list_all_iff is_digit_def)

lemma pad_int_digits: "list_all is_digit (pad_int n i)"
  by (simp add: pad_int_def padStart0_digits show_nat_digits)

lemma not_digit_notin: "list_all is_digit s \<Longrightarrow> \<not> is_digit c \<Longrightarrow> c \<notin> set s"
  by (auto simp: list_all_iff)

lemma T_not_in_pad_int: "CHR ''T'' \<notin> set (pad_int n i)"
  by (rule not_digit_notin [OF pad_int_digits]) (simp add: is_digit_def)

lemma T_not_in_year_text: "CHR ''T'' \<notin> set (year_text y)"
proof -
  have "CHR ''T'' \<notin> set (padStart0 k (show_nat m))" for k m
    by (rule not_digit_notin [OF padStart0_digits [OF show_nat_digits]]) (simp add: is_digit_def)
  then show ?thesis by (simp add: year_text_def)
qed

lemma T_not_in_utc_date_text: "CHR ''T'' \<notin> set (utc_date_text t)"
  by (simp add: utc_date_text_def T_not_in_pad_int T_not_in_year_text)

lemma split_first: "sep \<notin> set a \<Longrightarrow> split sep (a @ sep # b) = a # split sep b"
  by (induction a) auto

lemma toISOString_date:
  "toISOString (Some t) = Inr (utc_date_text t @ CHR ''T'' # pad_int 2 (HourFromTime t) @ '':''
               @ pad_int 2 (MinFromTime t) @ '':'' @ pad_int 2 (SecFromTime t) @ ''.''
               @ pad_int 3 (msFromTime t) @ ''Z'')"
  by (simp add: toISOString_def utc_date_text_def)

lemma toISOString_first_piece:
  "toISOString (Some t) = Inr isoText \<Longrightarrow> first_piece (split CHR ''T'' isoText) = utc_date_text t"
  unfolding toISOString_date
  by (auto simp: split_first [OF T_not_in_utc_date_text] first_piece_def)

declare weekdays_run.simps [simp del]

lemma TimeClip_in_range:
  "- 8640000000000000 \<le> t \<Longrightarrow> t \<le> 8640000000000000 \<Longrightarrow> TimeClip (Some t) = Some t"
  by (simp add: TimeClip_def)

lemma run_fuel0:
  "weekdays_run 0 tza ws d = (if length ws < 30 then None else Some (Inr ws))"
  by (simp add: weekdays_run.simps)

lemma run_step:
  "weekdays_run (Suc n) tza ws (Some t) =
     (if length ws < 30 then
        (if local_weekday tza t
         then weekdays_run n tza (ws @ [utc_date_text t]) (TimeClip (Some (t + msPerDay)))
         else weekdays_run n tza ws (TimeClip (Some (t + msPerDay))))
      else Some (Inr ws))"
proof -
  obtain isoText where iso: "toISOString (Some t) = Inr isoText"
    by (simp add: toISOString_def)
  show ?thesis
    by (subst weekdays_run.simps)
      (simp add: Let_def setDate_next getDay_def local_weekday_def iso
         toISOString_first_piece [OF iso])
qed

lemma run_invalid:
  "weekdays_run (Suc n) tza ws None = (if length ws < 30 then Some (Inl RangeError) else Some (Inr ws))"
  by (subst weekdays_run.simps) (simp add: Let_def getDay_def toISOString_def)

lemma run_char:
  assumes "n = 0 \<or> (- 8640000000000000 \<le> t \<and> t + (int n - 1) * msPerDay \<le> 8640000000000000)"
  shows "weekdays_run n tza ws (TimeClip (Some t)) =
     (let need = 30 - length ws; cand = filter (local_weekday tza) (days_from n t) in
      if need \<le> length cand then Some (Inr (ws @ map utc_date_text (take need cand))) else None)"
  using assms
proof (induction n arbitrary: ws t)
  case 0
  show ?case by (auto simp: run_fuel0)
next
  case (Suc n)
  then have lo: "- 8640000000000000 \<le> t" and hi: "t + int n * msPerDay \<le> 8640000000000000"
    by simp_all
  have "0 \<le> int n * msPerDay"
    by (simp add: msPerDay_def)
  then have clip: "TimeClip (Some t) = Some t"
    using lo hi by (simp add: TimeClip_in_range)
  have pre: "n = 0 \<or> (- 8640000000000000 \<le> t + msPerDay
      \<and> t + msPerDay + (int n - 1) * msPerDay \<le> 8640000000000000)"
    using lo hi by (simp add: algebra_simps msPerDay_def)
  note IH = Suc.IH [OF pre]
  show ?case
  proof (cases "length ws < 30")
    case False
    then show ?thesis by (simp add: clip run_step)
  next
    case True
    then obtain k where k: "30 - length ws = Suc k"
      by (cases "30 - length ws") simp_all
    then have k': "30 - length (ws @ [utc_date_text t]) = k"
      by simp
    show ?thesis
      unfolding clip run_step IH
      using True k k' by (simp add: Let_def)
  qed
qed

lemma local_weekday_next:
  "WeekDay (LocalTime tza (t + msPerDay)) = (WeekDay (LocalTime tza t) + 1) mod 7"
  using WeekDay_next [of "t + tza"] by (simp add: LocalTime_def algebra_simps)

lemma WeekDay_range: "0 \<le> WeekDay t \<and> WeekDay t < 7"
  by (simp add: WeekDay_def)

lemma Day_add_days: "Day (t + int k * msPerDay) = Day t + int k"
  by (simp add: Day_def msPerDay_def)

lemma local_weekday_add_days:
  "WeekDay (LocalTime tza (t + int k * msPerDay)) = (WeekDay (LocalTime tza t) + int k) mod 7"
proof -
  have "LocalTime tza (t + int k * msPerDay) = LocalTime tza t + int k * msPerDay"
    by (simp add: LocalTime_def)
  then have "WeekDay (LocalTime tza (t + int k * msPerDay)) = (Day (LocalTime tza t) + int k + 4) mod 7"
    by (simp only: WeekDay_def Day_add_days)
  also have "\<dots> = ((Day (LocalTime tza t) + 4) mod 7 + int k) mod 7"
    by (simp add: mod_simps algebra_simps)
  finally show ?thesis by (simp only: WeekDay_def)
qed

lemma days_from_map: "days_from n t = map (\<lambda>k. t + int k * msPerDay) [0..<n]"
proof (induction n arbitrary: t)
  case 0
  show ?case by simp
next
  case (Suc n)
  have "map (\<lambda>k. t + int k * msPerDay) [0..<Suc n]
          = t # map (\<lambda>k. t + msPerDay + int k * msPerDay) [0..<n]"
    by (simp add: upt_conv_Cons map_Suc_upt [symmetric] algebra_simps del: upt_Suc)
  then show ?case by (simp add: Suc.IH)
qed

lemma week_count: "length (filter (local_weekday tza) (days_from 7 t)) = 5"
proof -
  define w where "w = WeekDay (LocalTime tza t)"
  have "0 \<le> w \<and> w < 7"
    unfolding w_def by (rule WeekDay_range)
  then consider "w = 0" | "w = 1" | "w = 2" | "w = 3" | "w = 4" | "w = 5" | "w = 6"
    by linarith
  then show ?thesis
    unfolding days_from_map filter_map length_map comp_def local_weekday_def
      local_weekday_add_days w_def [symmetric]
    by cases (simp_all add: eval_nat_numeral)
qed

lemma days_from_add:
  "days_from (m + n) t = days_from m t @ days_from n (t + int m * msPerDay)"
  by (induction m arbitrary: t) (simp_all add: algebra_simps)

lemma six_weeks_count: "length (filter (local_weekday tza) (days_from 42 t)) = 30"
proof -
  have "days_from 42 t = days_from (7 + (7 + (7 + (7 + (7 + 7))))) t"
    by simp
  then show ?thesis
    by (simp only: days_from_add filter_append length_append week_count)
qed

lemma run_loop:
  "weekdays_run n tza ws d = Some r \<Longrightarrow> weekdays_loop tza ws d = Some r"
proof (induction n arbitrary: ws d)
  case 0
  then show ?case
    by (subst weekdays_loop.simps) (simp add: run_fuel0 split: if_splits)
next
  case (Suc n)
  show ?case
  proof (cases "length ws < 30")
    case False
    then show ?thesis
      using Suc.prems
      by (subst weekdays_loop.simps) (simp add: weekdays_run.simps [of "Suc n"])
  next
    case True
    show ?thesis
      using Suc.prems True
      by (subst weekdays_loop.simps, subst (asm) weekdays_run.simps)
        (auto simp: Let_def split: sum.splits if_splits intro: Suc.IH)
  qed
qed

lemma getNext30Weekdays_char:
  assumes "- 8640000000000000 \<le> t" and "t + 41 * msPerDay \<le> 8640000000000000"
  shows "weekdays_run 42 tza [] (Date_copy (Some t))
           = Some (Inr (map utc_date_text (take 30 (filter (local_weekday tza) (days_from 42 t)))))"
proof -
  have "42 = (0::nat) \<or> (- 8640000000000000 \<le> t \<and> t + (int 42 - 1) * msPerDay \<le> 8640000000000000)"
    using assms by simp
  from run_char [OF this, of tza "[]"] show ?thesis
    by (simp add: Date_copy_def six_weeks_count)
qed

text \<open>
  The largest time value is a valid start date, a Saturday: the step to the next day
  leaves the range of time values, the date becomes invalid, and the second iteration
  raises \<open>RangeError\<close> from \<open>toISOString\<close>.
\<close>

theorem getNext30Weekdays_range_counterexample:
  "getNext30Weekdays 0 (Some 8640000000000000) = Some (Inl RangeError)"
proof -
  have sat: "\<not> local_weekday 0 8640000000000000"
    by (simp add: local_weekday_def LocalTime_def WeekDay_def Day_def msPerDay_def)
  have "weekdays_run 2 0 [] (Date_copy (Some 8640000000000000)) = Some (Inl RangeError)"
    by (simp add: Date_copy_def TimeClip_def eval_nat_numeral run_step sat run_invalid msPerDay_def)
  then show ?thesis
    unfolding getNext30Weekdays_def by (rule run_loop)
qed

lemma run_invalid_ends:
  "n \<noteq> 0 \<or> 30 \<le> length ws \<Longrightarrow> weekdays_run n tza ws None \<noteq> None"
  by (cases n) (auto simp: run_fuel0 run_invalid)

lemma run_ends:
  assumes "30 \<le> length ws + length (filter (local_weekday tza) (days_from n t))"
    and "d = Some t \<or> d = None"
  shows "weekdays_run n tza ws d \<noteq> None"
  using assms
proof (induction n arbitrary: ws t d)
  case 0
  then show ?case by (simp add: run_fuel0)
next
  case (Suc n)
  show ?case
  proof (cases d)
    case None
    then show ?thesis by (simp add: run_invalid)
  next
    case (Some t')
    then have d: "d = Some t" using Suc.prems(2) by simp
    have next_state: "TimeClip (Some (t + msPerDay)) = Some (t + msPerDay)
        \<or> TimeClip (Some (t + msPerDay)) = None"
      by (simp add: TimeClip_def)
    show ?thesis
    proof (cases "length ws < 30")
      case False
      then show ?thesis by (simp add: d run_step)
    next
      case True
      show ?thesis
      proof (cases "local_weekday tza t")
        case True
        have "30 \<le> length (ws @ [utc_date_text t])
                + length (filter (local_weekday tza) (days_from n (t + msPerDay)))"
          using Suc.prems(1) True by simp
        from Suc.IH [OF this next_state] show ?thesis
          using True \<open>length ws < 30\<close> by (simp add: d run_step)
      next
        case False
        have "30 \<le> length ws + length (filter (local_weekday tza) (days_from n (t + msPerDay)))"
          using Suc.prems(1) False by simp
        from Suc.IH [OF this next_state] show ?thesis
          using False \<open>length ws < 30\<close> by (simp add: d run_step)
      qed
    qed
  qed
qed

lemma run_42_ends: "weekdays_run 42 tza [] (Date_copy d) \<noteq> None"
proof (cases "Date_copy d")
  case None
  then show ?thesis by (simp add: run_invalid_ends)
next
  case (Some t)
  have "30 \<le> length ([]::string list) + length (filter (local_weekday tza) (days_from 42 t))"
    by (simp add: six_weeks_count)
  from run_ends [OF this, of "Some t"] show ?thesis
    using Some by simp
qed

text \<open>
  C10. On a host whose zone is a fixed offset, the loop ends within 42 iterations for
  every start date, valid or not: it returns or it raises an error. For a valid start
  date whose time value is at most the largest time value less 41 days it returns, with
  30 entries.
\<close>

theorem getNext30Weekdays_ends:
  "(\<exists>r. weekdays_run 42 tza [] (Date_copy d) = Some r \<and> getNext30Weekdays tza d = Some r)
   \<and> (\<forall>t. d = Some t \<and> - 8640000000000000 \<le> t \<and> t + 41 * msPerDay \<le> 8640000000000000 \<longrightarrow>
         (\<exists>weekdays. weekdays_run 42 tza [] (Date_copy d) = Some (Inr weekdays)
            \<and> getNext30Weekdays tza d = Some (Inr weekdays)
            \<and> length weekdays = 30))"
proof (intro conjI allI impI)
  obtain r where r: "weekdays_run 42 tza [] (Date_copy d) = Some r"
    using run_42_ends [of tza d] by auto
  then have "getNext30Weekdays tza d = Some r"
    unfolding getNext30Weekdays_def by (rule run_loop)
  then show "\<exists>r. weekdays_run 42 tza [] (Date_copy d) = Some r \<and> getNext30Weekdays tza d = Some r"
    using r by blast
next
  fix t
  assume h: "d = Some t \<and> - 8640000000000000 \<le> t \<and> t + 41 * msPerDay \<le> 8640000000000000"
  let ?ws = "map utc_date_text (take 30 (filter (local_weekday tza) (days_from 42 t)))"
  have run: "weekdays_run 42 tza [] (Date_copy d) = Some (Inr ?ws)"
    using h getNext30Weekdays_char [of t tza] by simp
  have "getNext30Weekdays tza d = Some (Inr ?ws)"
    unfolding getNext30Weekdays_def by (rule run_loop [OF run])
  moreover have "length ?ws = 30"
    by (simp add: six_weeks_count)
  ultimately show "\<exists>weekdays. weekdays_run 42 tza [] (Date_copy d) = Some (Inr weekdays)
            \<and> getNext30Weekdays tza d = Some (Inr weekdays) \<and> length weekdays = 30"
    using run by blast
qed

text \<open>The theorem at the start date 2024-04-05T00:00Z on a host in UTC.\<close>

theorem getNext30Weekdays_ends_witness:
  "- 8640000000000000 \<le> (1712275200000::int)
   \<and> 1712275200000 + 41 * msPerDay \<le> 8640000000000000
   \<and> (\<exists>weekdays. weekdays_run 42 0 [] (Date_copy (Some 1712275200000)) = Some (Inr weekdays)
           \<and> getNext30Weekdays 0 (Some 1712275200000) = Some (Inr weekdays)
           \<and> length weekdays = 30)"
proof -
  have a: "- 8640000000000000 \<le> (1712275200000::int)"
    by simp
  have b: "1712275200000 + 41 * msPerDay \<le> 8640000000000000"
    by (simp add: msPerDay_def)
  from getNext30Weekdays_ends [of 0 "Some 1712275200000", THEN conjunct2, rule_format, of 1712275200000]
    a b show ?thesis
    by blast
qed

section \<open>The weekdays on a host behind UTC\<close>

lemmas calendar_eval =
  utc_date_text_def year_text_def pad_int_def padStart0_def show_nat.simps digit_char_def
  YearFromTime_def YearFromDay_def DayFromYear_def MonthFromTime_def DateFromTime_def
  DayWithinYear_def InLeapYear_def DaysInYear_def Day_def msPerDay_def Let_def

lemma run_utc_minus_4:
  "weekdays_run 42 (- 14400000) [] (Date_copy (Some 1712275200000)) = Some (Inr
     [''2024-04-05'', ''2024-04-06'', ''2024-04-09'', ''2024-04-10'', ''2024-04-11'',
      ''2024-04-12'', ''2024-04-13'', ''2024-04-16'', ''2024-04-17'', ''2024-04-18'',
      ''2024-04-19'', ''2024-04-20'', ''2024-04-23'', ''2024-04-24'', ''2024-04-25'',
      ''2024-04-26'', ''2024-04-27'', ''2024-04-30'', ''2024-05-01'', ''2024-05-02'',
      ''2024-05-03'', ''2024-05-04'', ''2024-05-07'', ''2024-05-08'', ''2024-05-09'',
      ''2024-05-10'', ''2024-05-11'', ''2024-05-14'', ''2024-05-15'', ''2024-05-16''])"
proof -
  have d: "days_from 42 1712275200000 =
     [1712275200000, 1712361600000, 1712448000000, 1712534400000,
      1712620800000, 1712707200000, 1712793600000, 1712880000000,
      1712966400000, 1713052800000, 1713139200000, 1713225600000,
      1713312000000, 1713398400000, 1713484800000, 1713571200000,
      1713657600000, 1713744000000, 1713830400000, 1713916800000,
      1714003200000, 1714089600000, 1714176000000, 1714262400000,
      1714348800000, 1714435200000, 1714521600000, 1714608000000,
      1714694400000, 1714780800000, 1714867200000, 1714953600000,
      1715040000000, 1715126400000, 1715212800000, 1715299200000,
      1715385600000, 1715472000000, 1715558400000, 1715644800000,
      1715731200000, 1715817600000]"
    by (simp add: eval_nat_numeral msPerDay_def)
  have f: "take 30 (filter (local_weekday (- 14400000))
     [1712275200000, 1712361600000, 1712448000000, 1712534400000,
      1712620800000, 1712707200000, 1712793600000, 1712880000000,
      1712966400000, 1713052800000, 1713139200000, 1713225600000,
      1713312000000, 1713398400000, 1713484800000, 1713571200000,
      1713657600000, 1713744000000, 1713830400000, 1713916800000,
      1714003200000, 1714089600000, 1714176000000, 1714262400000,
      1714348800000, 1714435200000, 1714521600000, 1714608000000,
      1714694400000, 1714780800000, 1714867200000, 1714953600000,
      1715040000000, 1715126400000, 1715212800000, 1715299200000,
      1715385600000, 1715472000000, 1715558400000, 1715644800000,
      1715731200000, 1715817600000]) =
     [1712275200000, 1712361600000, 1712620800000, 1712707200000,
      1712793600000, 1712880000000, 1712966400000, 1713225600000,
      1713312000000, 1713398400000, 1713484800000, 1713571200000,
      1713830400000, 1713916800000, 1714003200000, 1714089600000,
      1714176000000, 1714435200000, 1714521600000, 1714608000000,
      1714694400000, 1714780800000, 1715040000000, 1715126400000,
      1715212800000, 1715299200000, 1715385600000, 1715644800000,
      1715731200000, 1715817600000]"
    by (simp add: local_weekday_def WeekDay_def LocalTime_def Day_def msPerDay_def)
  have m: "map utc_date_text
     [1712275200000, 1712361600000, 1712620800000, 1712707200000,
      1712793600000, 1712880000000, 1712966400000, 1713225600000,
      1713312000000, 1713398400000, 1713484800000, 1713571200000,
      1713830400000, 1713916800000, 1714003200000, 1714089600000,
      1714176000000, 1714435200000, 1714521600000, 1714608000000,
      1714694400000, 1714780800000, 1715040000000, 1715126400000,
      1715212800000, 1715299200000, 1715385600000, 1715644800000,
      1715731200000, 1715817600000] =
     [''2024-04-05'', ''2024-04-06'', ''2024-04-09'', ''2024-04-10'', ''2024-04-11'',
      ''2024-04-12'', ''2024-04-13'', ''2024-04-16'', ''2024-04-17'', ''2024-04-18'',
      ''2024-04-19'', ''2024-04-20'', ''2024-04-23'', ''2024-04-24'', ''2024-04-25'',
      ''2024-04-26'', ''2024-04-27'', ''2024-04-30'', ''2024-05-01'', ''2024-05-02'',
      ''2024-05-03'', ''2024-05-04'', ''2024-05-07'', ''2024-05-08'', ''2024-05-09'',
      ''2024-05-10'', ''2024-05-11'', ''2024-05-14'', ''2024-05-15'', ''2024-05-16'']"
    by (simp add: calendar_eval)
  have a: "- 8640000000000000 \<le> (1712275200000::int)"
    by simp
  have b: "1712275200000 + 41 * msPerDay \<le> 8640000000000000"
    by (simp add: msPerDay_def)
  show ?thesis
    unfolding getNext30Weekdays_char [OF a b] d f m by (rule refl)
qed

lemmas parse_iso_eval =
  Date_parse_iso_def iso_fields_def is_digit_def digits_value_def digit_val_def MakeDay_def
  MakeDate_def TimeClip_def DayFromMonth_def DayFromYear_def DaysInYear_def msPerDay_def Let_def

text \<open>
  C1, on a host four hours behind UTC (\<open>tza = -14400000\<close>), from the start date
  2024-04-05T00:00Z that \<open>main\<close> builds from a first row dated 05-Apr-2024: the day of the
  week is read in local time (Thursday evening) and the text in UTC, so the second entry
  is 2024-04-06, a Saturday, and every Monday is skipped.
\<close>

theorem getNext30Weekdays_behind_utc:
  "getNext30Weekdays (- 14400000) (Some 1712275200000) = Some (Inr
     [''2024-04-05'', ''2024-04-06'', ''2024-04-09'', ''2024-04-10'', ''2024-04-11'',
      ''2024-04-12'', ''2024-04-13'', ''2024-04-16'', ''2024-04-17'', ''2024-04-18'',
      ''2024-04-19'', ''2024-04-20'', ''2024-04-23'', ''2024-04-24'', ''2024-04-25'',
      ''2024-04-26'', ''2024-04-27'', ''2024-04-30'', ''2024-05-01'', ''2024-05-02'',
      ''2024-05-03'', ''2024-05-04'', ''2024-05-07'', ''2024-05-08'', ''2024-05-09'',
      ''2024-05-10'', ''2024-05-11'', ''2024-05-14'', ''2024-05-15'', ''2024-05-16''])
   \<and> Date_parse_iso ''2024-04-06'' = Some 1712361600000
   \<and> WeekDay 1712361600000 = 6"
proof -
  have "Date_parse_iso ''2024-04-06'' = Some 1712361600000"
    by (simp add: parse_iso_eval)
  moreover have "WeekDay 1712361600000 = 6"
    by (simp add: WeekDay_def Day_def msPerDay_def)
  moreover have "getNext30Weekdays (- 14400000) (Some 1712275200000) = Some (Inr
     [''2024-04-05'', ''2024-04-06'', ''2024-04-09'', ''2024-04-10'', ''2024-04-11'',
      ''2024-04-12'', ''2024-04-13'', ''2024-04-16'', ''2024-04-17'', ''2024-04-18'',
      ''2024-04-19'', ''2024-04-20'', ''2024-04-23'', ''2024-04-24'', ''2024-04-25'',
      ''2024-04-26'', ''2024-04-27'', ''2024-04-30'', ''2024-05-01'', ''2024-05-02'',
      ''2024-05-03'', ''2024-05-04'', ''2024-05-07'', ''2024-05-08'', ''2024-05-09'',
      ''2024-05-10'', ''2024-05-11'', ''2024-05-14'', ''2024-05-15'', ''2024-05-16''])"
    unfolding getNext30Weekdays_def by (rule run_loop [OF run_utc_minus_4])
  ultimately show ?thesis by simp
qed

section \<open>Reading a date of the calendar\<close>

lemma month_disj:
  "0 \<le> m \<Longrightarrow> m \<le> (11::int) \<Longrightarrow>
   m = 0 \<or> m = 1 \<or> m = 2 \<or> m = 3 \<or> m = 4 \<or> m = 5 \<or> m = 6 \<or> m = 7 \<or> m = 8 \<or> m = 9
     \<or> m = 10 \<or> m = 11"
  by arith

lemma month_cases:
  assumes "0 \<le> m" and "m \<le> (11::int)"
  obtains "m = 0" | "m = 1" | "m = 2" | "m = 3" | "m = 4" | "m = 5" | "m = 6" | "m = 7"
    | "m = 8" | "m = 9" | "m = 10" | "m = 11"
  using month_disj [OF assms] by blast

lemma day_in_year:
  assumes "0 \<le> m" and "m \<le> 11" and "1 \<le> d" and "d \<le> DaysInMonth y m"
  shows "DayFromYear y \<le> DayFromMonth y m + d - 1"
    and "DayFromMonth y m + d - 1 < DayFromYear (y + 1)"
proof -
  show "DayFromYear y \<le> DayFromMonth y m + d - 1"
    using assms(1,2) assms(3) by (cases rule: month_cases) (simp_all add: DayFromMonth_def)
  show "DayFromMonth y m + d - 1 < DayFromYear (y + 1)"
    unfolding DayFromYear_step
    using assms(1,2) assms(3,4) DaysInYear_pos [of y]
    by (cases rule: month_cases) (auto simp: DayFromMonth_def DaysInMonth_def DaysInYear_def)
qed

lemma fields_of_day:
  assumes "0 \<le> m" and "m \<le> 11" and "1 \<le> d" and "d \<le> DaysInMonth y m"
    and "Day t = DayFromMonth y m + d - 1"
  shows "YearFromTime t = y" and "MonthFromTime t = m" and "DateFromTime t = d"
proof -
  show y: "YearFromTime t = y"
    unfolding YearFromTime_def assms(5)
    by (rule YearFromDay_unique [OF day_in_year [OF assms(1-4)]])
  have l: "InLeapYear t = (if DaysInYear y = 366 then 1 else 0)"
    by (simp add: InLeapYear_def y)
  have k: "DayWithinYear t = DayFromMonth y m + d - 1 - DayFromYear y"
    by (simp add: DayWithinYear_def y assms(5))
  show m: "MonthFromTime t = m"
    unfolding MonthFromTime_def Let_def l k
    using assms(1,2) assms(3,4)
    by (cases rule: month_cases) (auto simp: DayFromMonth_def DaysInMonth_def)
  show "DateFromTime t = d"
    unfolding DateFromTime_def Let_def l k m
    using assms(1,2)
    by (cases rule: month_cases) (auto simp: DayFromMonth_def)
qed

lemma digits_value_snoc: "digits_value (ds @ [c]) = 10 * digits_value ds + digit_val c"
  by (simp add: digits_value_def)

lemma digit_val_digit_char: "n < 10 \<Longrightarrow> digit_val (digit_char n) = n"
proof -
  have "list_all (\<lambda>k. digit_val (''0123456789'' ! k) = k) [0..<10]"
    by (simp add: digit_val_def upt_rec)
  then show "n < 10 \<Longrightarrow> digit_val (digit_char n) = n"
    unfolding digit_char_def list_all_iff by simp
qed

lemma digits_value_show_nat: "digits_value (show_nat n) = n"
proof (induction n rule: show_nat.induct)
  case (1 n)
  show ?case
  proof (cases "n < 10")
    case True
    then show ?thesis
      by (subst show_nat.simps) (simp add: digits_value_def digit_val_digit_char)
  next
    case False
    then have "digits_value (show_nat n) = 10 * digits_value (show_nat (n div 10)) + digit_val (digit_char (n mod 10))"
      by (subst show_nat.simps) (simp add: digits_value_snoc)
    then show ?thesis
      using 1 False by (simp add: digit_val_digit_char)
  qed
qed

lemma digits_value_zeros: "foldl (\<lambda>n c. 10 * n + digit_val c) 0 (replicate k CHR ''0'') = 0"
proof (induction k)
  case 0
  show ?case by simp
next
  case (Suc k)
  have "digit_val CHR ''0'' = 0"
    by (simp add: digit_val_def)
  then show ?case
    using Suc by simp
qed

lemma digits_value_padStart0: "digits_value (padStart0 k s) = digits_value s"
  by (simp add: padStart0_def digits_value_def digits_value_zeros)

lemma digits_value_pad_int: "0 \<le> i \<Longrightarrow> int (digits_value (pad_int k i)) = i"
  by (simp add: pad_int_def digits_value_padStart0 digits_value_show_nat)

lemma show_nat_nonempty: "show_nat n \<noteq> []"
  by (subst show_nat.simps) simp

lemma pad_int_nonempty: "pad_int k i \<noteq> []"
  by (simp add: pad_int_def padStart0_def show_nat_nonempty)

lemma digit_not_space: "is_digit c \<Longrightarrow> \<not> is_space c"
  by (auto simp: is_digit_def is_space_def)

lemma trim_digits: "list_all is_digit ds \<Longrightarrow> trim ds = ds"
proof (cases ds rule: rev_cases)
  case Nil
  then show ?thesis by (simp add: trim_def)
next
  case (snoc ys y)
  assume d: "list_all is_digit ds"
  then have a: "dropWhile is_space ds = ds"
    by (cases ds) (simp_all add: digit_not_space)
  have "\<not> is_space y"
    using d snoc by (simp add: digit_not_space)
  then have "dropWhile is_space (rev ds) = rev ds"
    using snoc by simp
  then show ?thesis by (simp add: trim_def a)
qed

lemma scan_radix_digits: "list_all is_digit ds \<Longrightarrow> scan_radix ds = None"
  by (auto simp: scan_radix_def is_digit_def Let_def split: list.splits)

lemma scan_unsigned_digits:
  assumes "ds \<noteq> []" and "list_all is_digit ds"
  shows "scan_unsigned ds = Some (Fin (real (digits_value ds)), [])"
proof -
  obtain c r where ds: "ds = c # r" using assms(1) by (cases ds) auto
  then have c: "is_digit c" using assms(2) by simp
  then have "c \<noteq> CHR ''I''" by (auto simp: is_digit_def)
  then have inf: "take 8 ds \<noteq> ''Infinity''"
    using ds by auto
  have tw: "takeWhile is_digit ds = ds" "dropWhile is_digit ds = []"
    using assms(2) by (simp_all add: list_all_iff)
  show ?thesis
    using inf assms(1) by (simp add: scan_unsigned_def tw Let_def scan_exponent_def scaled_def)
qed

lemma to_number_digits:
  assumes "ds \<noteq> []" and "list_all is_digit ds"
  shows "to_number (Some ds) = Fin (real (digits_value ds))"
proof -
  obtain c r where ds: "ds = c # r" using assms(1) by (cases ds) auto
  then have c: "is_digit c" using assms(2) by simp
  then have "c \<noteq> CHR ''-''" "c \<noteq> CHR ''+''" by (auto simp: is_digit_def)
  then have "scan_decimal ds = scan_unsigned ds"
    by (simp add: scan_decimal_def ds)
  then show ?thesis
    using assms(1)
    by (simp add: to_number_def trim_digits [OF assms(2)] scan_radix_digits [OF assms(2)]
        scan_unsigned_digits [OF assms])
qed

lemma to_number_pad_int: "0 \<le> i \<Longrightarrow> to_number (Some (pad_int k i)) = Fin (real_of_int i)"
proof -
  assume i: "0 \<le> i"
  have "real (digits_value (pad_int k i)) = real_of_int (int (digits_value (pad_int k i)))"
    by simp
  also have "\<dots> = real_of_int i"
    by (simp only: digits_value_pad_int [OF i])
  finally show ?thesis
    by (simp add: to_number_digits [OF pad_int_nonempty pad_int_digits])
qed

lemma to_integer_of_int: "to_integer (Fin (real_of_int i)) = Some i"
  by (simp add: to_integer_def)

lemma split_none: "sep \<notin> set a \<Longrightarrow> split sep a = [a]"
  by (induction a) auto

lemma split_three:
  "sep \<notin> set a \<Longrightarrow> sep \<notin> set b \<Longrightarrow> sep \<notin> set c \<Longrightarrow>
   split sep (a @ sep # b @ sep # c) = [a, b, c]"
  by (simp add: split_first split_none)

lemma dash_not_in_pad_int: "CHR ''-'' \<notin> set (pad_int n i)"
  by (rule not_digit_notin [OF pad_int_digits]) (simp add: is_digit_def)

lemma month_abbr_cases:
  assumes "m < 12"
  obtains "m = 0" | "m = 1" | "m = 2" | "m = 3" | "m = 4" | "m = 5" | "m = 6" | "m = 7"
    | "m = 8" | "m = 9" | "m = 10" | "m = (11::nat)"
proof -
  have "m = 0 \<or> m = 1 \<or> m = 2 \<or> m = 3 \<or> m = 4 \<or> m = 5 \<or> m = 6 \<or> m = 7 \<or> m = 8 \<or> m = 9
     \<or> m = 10 \<or> m = 11"
    using assms by arith
  then show ?thesis using that by blast
qed

lemma dash_not_in_month_abbr:
  assumes "m < 12"
  shows "CHR ''-'' \<notin> set (month_abbr ! m)"
  using assms by (cases m rule: month_abbr_cases) (simp_all add: month_abbr_def)

lemmas token_eval =
  Scan_def is_digit_def is_word_char_def is_space_def Lookup_def KeywordTable_def same_letter_def
  ReadUnsignedNumeral_def digits_value_def digit_val_def

lemmas parser_eval =
  DateParser_Parse_def ParseES5DateTime_def ES5_month_day_def ES5_rest_def ES5_done_def
  Peek_def IsAsciiSign_def IsFixedNumber_def IsKeywordType_def IsNumber_def token_number_def
  legacy_step_def legacy_number_def legacy_keyword_def time_IsExpecting_def tz_IsExpecting_def
  empty_day_def empty_time_def empty_tz_def day_Write_def time_Write_def tz_Write_def tz_Set_def
  IsDay_def IsMonth_def IsHour_def IsMinute_def IsSecond_def IsMillisecond_def MakeTime_def Let_def

lemmas make_day_eval =
  MakeDay_def MakeDate_def DayFromMonth_def DayFromYear_def DaysInYear_def msPerDay_def

lemma Date_parse_abbr:
  assumes "m < 12"
  shows "Date_parse tza (month_abbr ! m @ '' 1, 2020'')
     = Date_fields tza (Fin 2020) (Fin (real m)) (Fin 1)"
  using assms
  by (cases m rule: month_abbr_cases)
    (simp_all add: month_abbr_def Date_parse_def token_eval parser_eval Date_fields_def
       MakeFullYear_def to_integer_def make_day_eval TimeClip_def UTC_def)

lemma DayFromYear_range:
  assumes "0 \<le> y" and "y \<le> 9999"
  shows "- 719900 \<le> DayFromYear y" and "DayFromYear y \<le> 2933000"
proof -
  have a: "146097 * y - 287811596 \<le> 400 * DayFromYear y"
    using DayFromYear_bounds(1) [of y] by simp
  have b: "400 * DayFromYear y \<le> 146097 * y - 287810501"
    using DayFromYear_bounds(2) [of y] by simp
  show "- 719900 \<le> DayFromYear y" using a assms by linarith
  show "DayFromYear y \<le> 2933000" using b assms by linarith
qed

lemma DayFromMonth_range:
  assumes "0 \<le> y" and "y \<le> 9999" and "0 \<le> m" and "m \<le> 11"
  shows "- 719900 \<le> DayFromMonth y m" and "DayFromMonth y m \<le> 2933400"
proof -
  show "- 719900 \<le> DayFromMonth y m"
    using DayFromYear_range(1) [OF assms(1,2)] by (simp add: DayFromMonth_def)
  show "DayFromMonth y m \<le> 2933400"
    using DayFromYear_range(2) [OF assms(1,2)] by (simp add: DayFromMonth_def)
qed

text \<open>
  \<open>new Date(y, m, d)\<close> for a day of the calendar, and the local fields read back from it.
\<close>

lemma Date_fields_day:
  assumes "0 \<le> y" and "y \<le> 9999" and "MakeFullYear (Some y) = Some yr"
    and "0 \<le> m" and "m \<le> 11"
    and "1 \<le> d" and "d \<le> DaysInMonth yr m" and "\<bar>tza\<bar> \<le> msPerDay"
  shows "Date_fields tza (Fin (real_of_int y)) (Fin (real_of_int m)) (Fin (real_of_int d))
           = Some ((DayFromMonth yr m + d - 1) * msPerDay - tza)"
proof -
  have yr: "0 \<le> yr" "yr \<le> 9999"
    using assms(1,2,3) by (auto simp: MakeFullYear_def split: if_splits)
  have d31: "d \<le> 31"
    using assms(7) by (auto simp: DaysInMonth_def split: if_splits)
  have md: "m div 12 = 0" "m mod 12 = m"
    using assms(4,5) by simp_all
  have r: "- 719900 \<le> DayFromMonth yr m" "DayFromMonth yr m \<le> 2933400"
    by (rule DayFromMonth_range [OF yr assms(4,5)])+
  have "\<bar>(DayFromMonth yr m + d - 1) * msPerDay - tza\<bar> \<le> 8640000000000000"
    using r assms(6) d31 assms(8) by (simp add: msPerDay_def abs_le_iff)
  then show ?thesis
    by (simp add: Date_fields_def to_integer_of_int assms(3) MakeDay_def md MakeDate_def
        UTC_def TimeClip_def Let_def)
qed

lemma Date_fields_getters:
  assumes "0 \<le> y" and "y \<le> 9999" and "MakeFullYear (Some y) = Some yr"
    and "0 \<le> m" and "m \<le> 11"
    and "1 \<le> d" and "d \<le> DaysInMonth yr m" and "\<bar>tza\<bar> \<le> msPerDay"
  defines "date \<equiv> Date_fields tza (Fin (real_of_int y)) (Fin (real_of_int m)) (Fin (real_of_int d))"
  shows "getFullYear tza date = Some yr" and "getMonth tza date = Some m"
    and "getDate tza date = Some d"
proof -
  let ?t = "(DayFromMonth yr m + d - 1) * msPerDay - tza"
  have date: "date = Some ?t"
    unfolding date_def by (rule Date_fields_day [OF assms(1-8)])
  have "Day (LocalTime tza ?t) = DayFromMonth yr m + d - 1"
    by (simp add: LocalTime_def Day_def msPerDay_def)
  note f = fields_of_day [OF assms(4-7) this]
  show "getFullYear tza date = Some yr"
    by (simp add: date getFullYear_def f)
  show "getMonth tza date = Some m"
    by (simp add: date getMonth_def f)
  show "getDate tza date = Some d"
    by (simp add: date getDate_def f)
qed

lemma month_of_abbr:
  assumes "m < 12" and "\<bar>tza\<bar> \<le> msPerDay"
  shows "getMonth tza (Date_parse tza (month_abbr ! m @ '' 1, 2020'')) = Some (int m)"
proof -
  have "getMonth tza (Date_fields tza (Fin (real_of_int 2020)) (Fin (real_of_int (int m)))
          (Fin (real_of_int 1))) = Some (int m)"
    by (rule Date_fields_getters(2) [where yr = 2020])
      (use assms in \<open>simp_all add: MakeFullYear_def DaysInMonth_def\<close>)
  then show ?thesis
    by (simp add: Date_parse_abbr [OF assms(1)])
qed

lemma show_int_nonneg: "0 \<le> i \<Longrightarrow> show_int i = show_nat (nat i)"
  by (simp add: show_int_def)

lemma formatDateToISO_fields:
  assumes "0 \<le> y" and "y \<le> 9999" and "MakeFullYear (Some y) = Some yr"
    and "m < 12" and "1 \<le> d" and "d \<le> DaysInMonth yr (int m)" and "\<bar>tza\<bar> \<le> msPerDay"
  shows "formatDateToISO tza (pad_int 2 d @ ''-'' @ month_abbr ! m @ ''-'' @ pad_int 4 y)
           = show_int yr @ ''-'' @ pad_int 2 (int m + 1) @ ''-'' @ pad_int 2 d"
proof -
  have parts: "split CHR ''-'' (pad_int 2 d @ ''-'' @ month_abbr ! m @ ''-'' @ pad_int 4 y)
                 = [pad_int 2 d, month_abbr ! m, pad_int 4 y]"
    using split_three [OF dash_not_in_pad_int dash_not_in_month_abbr [OF assms(4)] dash_not_in_pad_int,
        of 2 d 4 y]
    by simp
  have d0: "0 \<le> d" using assms(5) by simp
  have m0: "0 \<le> int m" "int m \<le> 11" using assms(4) by simp_all
  have yr0: "0 \<le> yr"
    using assms(1,3) by (auto simp: MakeFullYear_def split: if_splits)
  note g = Date_fields_getters [OF assms(1,2,3) m0 assms(5,6,7), unfolded of_int_of_nat_eq]
  have pm: "padStart0 2 (show_int (int m + 1)) = pad_int 2 (int m + 1)"
    by (simp add: pad_int_def show_int_def)
  have pd: "padStart0 2 (show_int d) = pad_int 2 d"
    using d0 by (simp add: pad_int_def show_int_def)
  have "formatDateToISO tza (pad_int 2 d @ ''-'' @ month_abbr ! m @ ''-'' @ pad_int 4 y)
          = show_int yr @ ''-'' @ padStart0 2 (show_int (int m + 1)) @ ''-'' @ padStart0 2 (show_int d)"
    unfolding formatDateToISO_def parts
    by (simp add: element_def text_or_undefined_def Let_def month_of_abbr [OF assms(4,7)]
        int_number_def to_number_pad_int [OF assms(1)] to_number_pad_int [OF d0] g number_text_def)
  then show ?thesis
    by (simp only: pm pd)
qed

lemma show_nat_length_ge:
  assumes "1000 \<le> n"
  shows "4 \<le> length (show_nat n)"
proof -
  have s: "10 \<le> k \<Longrightarrow> length (show_nat k) = Suc (length (show_nat (k div 10)))" for k
    by (subst show_nat.simps) simp
  have "length (show_nat n) = Suc (Suc (Suc (length (show_nat (n div 10 div 10 div 10)))))"
    using assms by (simp add: s)
  moreover have "1 \<le> length (show_nat (n div 10 div 10 div 10))"
    using show_nat_nonempty [of "n div 10 div 10 div 10"] by (simp add: Suc_le_eq)
  ultimately show ?thesis by simp
qed

lemma show_int_four_digits: "1000 \<le> y \<Longrightarrow> show_int y = pad_int 4 y"
  using show_nat_length_ge [of "nat y"] by (simp add: show_int_def pad_int_def padStart0_def)

lemmas text_eval = pad_int_def padStart0_def show_int_def show_nat.simps digit_char_def month_abbr_def

text \<open>
  From the year 1000 on the function does what its comments say. For a date
  \<open>DD-MMM-YYYY\<close> of the calendar (day \<open>d\<close> of month \<open>m\<close>, counted from 0, of year \<open>y\<close>,
  the month written as its English three-letter abbreviation), on a host whose zone is
  a fixed offset of at most a day, the abbreviation resolves to the month index \<open>m\<close> and
  the result is the year in four digits, the month \<open>m + 1\<close> and the day \<open>d\<close> in two digits
  each, separated by hyphens.
\<close>

lemma formatDateToISO_from_1000:
  assumes "1000 \<le> y" and "y \<le> 9999" and "m < 12" and "1 \<le> d" and "d \<le> DaysInMonth y (int m)"
    and "\<bar>tza\<bar> \<le> msPerDay"
  shows "getMonth tza (Date_parse tza (month_abbr ! m @ '' 1, 2020'')) = Some (int m)"
    and "formatDateToISO tza (pad_int 2 d @ ''-'' @ month_abbr ! m @ ''-'' @ pad_int 4 y)
          = pad_int 4 y @ ''-'' @ pad_int 2 (int m + 1) @ ''-'' @ pad_int 2 d"
proof -
  have y0: "0 \<le> y" using assms(1) by simp
  have full: "MakeFullYear (Some y) = Some y"
    using assms(1) by (simp add: MakeFullYear_def)
  show "getMonth tza (Date_parse tza (month_abbr ! m @ '' 1, 2020'')) = Some (int m)"
    by (rule month_of_abbr [OF assms(3,6)])
  show "formatDateToISO tza (pad_int 2 d @ ''-'' @ month_abbr ! m @ ''-'' @ pad_int 4 y)
          = pad_int 4 y @ ''-'' @ pad_int 2 (int m + 1) @ ''-'' @ pad_int 2 d"
    using formatDateToISO_fields [OF y0 assms(2) full assms(3,4,5,6)]
      show_int_four_digits [OF assms(1)]
    by simp
qed

lemma formatDateToISO_05_Apr_2024: "formatDateToISO 19800000 ''05-Apr-2024'' = ''2024-04-05''"
proof -
  have h: "(1000::int) \<le> 2024" "(2024::int) \<le> 9999" "(3::nat) < 12" "(1::int) \<le> 5"
    "5 \<le> DaysInMonth 2024 (int 3)" "\<bar>19800000\<bar> \<le> msPerDay"
    by (simp_all add: DaysInMonth_def msPerDay_def)
  from formatDateToISO_from_1000(2) [OF h] show ?thesis
    by (simp add: text_eval)
qed

text \<open>
  C7. Before the year 1000 the result is not the \<open>YYYY-MM-DD\<close> rendering of the date that
  was read. The \<open>Date\<close> constructor takes a year from 0 to 99 as 1900 to 1999, so the
  well-formed 05-Apr-0050 comes back as a day of another year, 1950-04-05; and the year
  is written without padding, so 05-Apr-0999 comes back as 999-04-05, whose year has
  three digits where the month and the day are padded to two.
\<close>

theorem formatDateToISO_early_years:
  "formatDateToISO 0 ''05-Apr-0050'' = ''1950-04-05''
   \<and> formatDateToISO 0 ''05-Apr-0999'' = ''999-04-05''"
proof -
  have h: "(0::int) \<le> 50" "(50::int) \<le> 9999" "MakeFullYear (Some 50) = Some 1950"
    "(3::nat) < 12" "(1::int) \<le> 5" "5 \<le> DaysInMonth 1950 (int 3)" "\<bar>0\<bar> \<le> msPerDay"
    by (simp_all add: DaysInMonth_def msPerDay_def MakeFullYear_def)
  have a: "formatDateToISO 0 ''05-Apr-0050'' = ''1950-04-05''"
    using formatDateToISO_fields [OF h] by (simp add: text_eval numeral_2_eq_2)
  have k: "(0::int) \<le> 999" "(999::int) \<le> 9999" "MakeFullYear (Some 999) = Some 999"
    "(3::nat) < 12" "(1::int) \<le> 5" "5 \<le> DaysInMonth 999 (int 3)" "\<bar>0\<bar> \<le> msPerDay"
    by (simp_all add: DaysInMonth_def msPerDay_def MakeFullYear_def)
  have b: "formatDateToISO 0 ''05-Apr-0999'' = ''999-04-05''"
    using formatDateToISO_fields [OF k] by (simp add: text_eval numeral_2_eq_2)
  show ?thesis
    using a b by simp
qed

section \<open>Properties of the prepared data\<close>

lemma map_result_text_dates:
  "map_result (parse_date tza) (map (\<lambda>(d, c). \<lparr>row_Date = Text d, row_close = Text c\<rparr>) cells)
     = Inr (map (\<lambda>(d, c). date_value tza d) cells)"
  by (induction cells) (auto simp: parse_date_def)

lemma map_result_text_prices:
  "map_result parse_price (map (\<lambda>(d, c). \<lparr>row_Date = Text d, row_close = Text c\<rparr>) cells)
     = Inr (map (\<lambda>(d, c). price_value c) cells)"
  by (induction cells) (auto simp: parse_price_def)

text \<open>
  On rows whose \<open>Date\<close> and \<open>close\<close> cells are all strings the check does what it is meant
  to: if a parsed timestamp or a parsed price is \<open>NaN\<close>, \<open>prepareData\<close> raises the error
  \<open>Data contains NaN values\<close> and returns nothing; if none is, it returns the scaled values
  of every row, in order. (The limit an engine puts on the number of arguments of a call,
  which \<open>Math.max(...dates)\<close> meets on very long inputs, is not part of the model.)
\<close>

lemma prepareData_text_cells:
  fixes cells :: "(string \<times> string) list"
  assumes "data = map (\<lambda>(d, c). \<lparr>row_Date = Text d, row_close = Text c\<rparr>) cells"
    and "dates = map (\<lambda>(d, c). date_value tza d) cells"
    and "prices = map (\<lambda>(d, c). price_value c) cells"
  shows "(list_ex isNaN dates \<or> list_ex isNaN prices \<longrightarrow>
            prepareData tza data = Inl (Error ''Data contains NaN values''))
     \<and> (\<not> list_ex isNaN dates \<and> \<not> list_ex isNaN prices \<longrightarrow>
            prepareData tza data =
              Inr \<lparr> p_xs = map (\<lambda>v. normalize v (Math_min dates) (Math_max dates)) dates,
                    p_ys = map (\<lambda>v. normalize v (Math_min prices) (Math_max prices)) prices,
                    p_minDate = Math_min dates, p_maxDate = Math_max dates,
                    p_minPrice = Math_min prices, p_maxPrice = Math_max prices \<rparr>)"
  unfolding prepareData_def assms map_result_text_dates map_result_text_prices
  by (simp add: Let_def)

lemmas parse_float_eval =
  price_value_def strip_commas_def parseFloat_def trim_start_def is_space_def scan_decimal_def
  scan_unsigned_def scan_exponent_def scaled_def digits_value_def digit_val_def is_digit_def
  Let_def

text \<open>
  C2. The loader types the cells (\<open>dynamicTyping\<close>), so the \<open>close\<close> cell of a price
  written without separators reaches \<open>prepareData\<close> as a number, and \<open>.replace\<close> on it raises
  \<open>TypeError\<close>. With the rows (05-Apr-2024, abc) and (08-Apr-2024, 950.25) the first price
  is parsed to \<open>NaN\<close>, and yet the run ends with \<open>TypeError\<close>, not with the error
  \<open>Data contains NaN values\<close>.
\<close>

theorem prepareData_type_error:
  "parse_price \<lparr>row_Date = Text ''05-Apr-2024'', row_close = Text ''abc''\<rparr> = Inr NaN
   \<and> prepareData 0 [\<lparr>row_Date = Text ''05-Apr-2024'', row_close = Text ''abc''\<rparr>,
                     \<lparr>row_Date = Text ''08-Apr-2024'', row_close = NotText\<rparr>] = Inl TypeError"
  by (simp add: prepareData_def parse_date_def parse_price_def parse_float_eval)

lemmas date_parse_eval =
  date_value_def getTime_def int_number_def Date_parse_def token_eval parser_eval make_day_eval
  TimeClip_def

lemma date_value_2024_04_01: "date_value 0 ''01-Apr-2024'' = Fin 1711929600000"
proof -
  have h: "(0::int) \<le> 2024" "(2024::int) \<le> 9999" "MakeFullYear (Some 2024) = Some 2024"
    "(3::nat) < 12" "(1::int) \<le> 1" "1 \<le> DaysInMonth 2024 (int 3)" "\<bar>0\<bar> \<le> msPerDay"
    by (simp_all add: DaysInMonth_def msPerDay_def MakeFullYear_def)
  from formatDateToISO_fields [OF h] have "formatDateToISO 0 ''01-Apr-2024'' = ''2024-04-01''"
    by (simp add: text_eval)
  then show ?thesis
    by (simp add: date_parse_eval)
qed

lemma date_value_2024_04_02: "date_value 0 ''02-Apr-2024'' = Fin 1712016000000"
proof -
  have h: "(0::int) \<le> 2024" "(2024::int) \<le> 9999" "MakeFullYear (Some 2024) = Some 2024"
    "(3::nat) < 12" "(1::int) \<le> 2" "2 \<le> DaysInMonth 2024 (int 3)" "\<bar>0\<bar> \<le> msPerDay"
    by (simp_all add: DaysInMonth_def msPerDay_def MakeFullYear_def)
  from formatDateToISO_fields [OF h] have "formatDateToISO 0 ''02-Apr-2024'' = ''2024-04-02''"
    by (simp add: text_eval)
  then show ?thesis
    by (simp add: date_parse_eval)
qed

text \<open>
  The rows (01-Apr-2024, 100), (02-Apr-2024, 110) are scaled to 0 and 1, and the one row
  (01-Apr-2024, abc), whose price is \<open>NaN\<close>, raises the error.
\<close>

lemma prepareData_two_rows:
  "prepareData 0 [\<lparr>row_Date = Text ''01-Apr-2024'', row_close = Text ''100''\<rparr>,
                  \<lparr>row_Date = Text ''02-Apr-2024'', row_close = Text ''110''\<rparr>]
     = Inr \<lparr> p_xs = [Fin 0, Fin 1], p_ys = [Fin 0, Fin 1],
             p_minDate = Fin 1711929600000, p_maxDate = Fin 1712016000000,
             p_minPrice = Fin 100, p_maxPrice = Fin 110 \<rparr>
   \<and> prepareData 0 [\<lparr>row_Date = Text ''01-Apr-2024'', row_close = Text ''abc''\<rparr>]
     = Inl (Error ''Data contains NaN values'')"
proof -
  have p: "price_value ''100'' = Fin 100" "price_value ''110'' = Fin 110" "price_value ''abc'' = NaN"
    by (simp_all add: parse_float_eval)
  have ok: "prepareData 0 (map (\<lambda>(d, c). \<lparr>row_Date = Text d, row_close = Text c\<rparr>)
                [(''01-Apr-2024'', ''100''), (''02-Apr-2024'', ''110'')])
     = Inr \<lparr> p_xs = [Fin 0, Fin 1], p_ys = [Fin 0, Fin 1],
             p_minDate = Fin 1711929600000, p_maxDate = Fin 1712016000000,
             p_minPrice = Fin 100, p_maxPrice = Fin 110 \<rparr>"
    using prepareData_text_cells [OF refl refl refl, of 0
        "[(''01-Apr-2024'', ''100''), (''02-Apr-2024'', ''110'')]", THEN conjunct2]
    by (simp add: p date_value_2024_04_01 date_value_2024_04_02 Math_min_def Math_max_def
        normalize_def js_sub_def)
  have bad: "prepareData 0 (map (\<lambda>(d, c). \<lparr>row_Date = Text d, row_close = Text c\<rparr>)
                [(''01-Apr-2024'', ''abc'')])
     = Inl (Error ''Data contains NaN values'')"
    using prepareData_text_cells [OF refl refl refl, of 0 "[(''01-Apr-2024'', ''abc'')]", THEN conjunct1]
    by (simp add: p)
  show ?thesis
    using ok bad by simp
qed

lemma Math_max_single: "\<not> isNaN x \<Longrightarrow> Math_max [x] = x"
  by (cases x) (simp_all add: Math_max_def)

lemma Math_min_single: "\<not> isNaN x \<Longrightarrow> Math_min [x] = x"
  by (cases x) (simp_all add: Math_min_def)

lemma normalize_same: "normalize x x x = NaN"
  by (cases x) (simp_all add: normalize_def js_sub_def)

text \<open>
  C5. For one row, with string cells whose timestamp and price are not \<open>NaN\<close>: the
  minimum equals the maximum, the scaled timestamp and the scaled price are both \<open>NaN\<close>
  (for a finite value \<open>0 / 0\<close>), and \<open>prepareData\<close> returns them without raising the
  error, the check for \<open>NaN\<close> having run on the values before scaling.
\<close>

theorem prepareData_single_row:
  assumes "\<not> isNaN (date_value tza d)" and "\<not> isNaN (price_value c)"
  shows "prepareData tza [\<lparr>row_Date = Text d, row_close = Text c\<rparr>]
     = Inr \<lparr> p_xs = [NaN], p_ys = [NaN],
             p_minDate = date_value tza d, p_maxDate = date_value tza d,
             p_minPrice = price_value c, p_maxPrice = price_value c \<rparr>
   \<and> js_div (js_sub (date_value tza d) (date_value tza d))
         (js_sub (date_value tza d) (date_value tza d)) = NaN
   \<and> js_div (js_sub (price_value c) (price_value c))
         (js_sub (price_value c) (price_value c)) = NaN
   \<and> js_div (Fin 0) (Fin 0) = NaN"
  using assms
  by (simp add: prepareData_def parse_date_def parse_price_def Let_def Math_max_single
      Math_min_single normalize_same normalize_same [unfolded normalize_def])

text \<open>The theorem at the row (01-Apr-2024, 1,234.50).\<close>

theorem prepareData_single_row_witness:
  "prepareData 0 [\<lparr>row_Date = Text ''01-Apr-2024'', row_close = Text ''1,234.50''\<rparr>]
     = Inr \<lparr> p_xs = [NaN], p_ys = [NaN],
             p_minDate = Fin 1711929600000, p_maxDate = Fin 1711929600000,
             p_minPrice = Fin 1234.5, p_maxPrice = Fin 1234.5 \<rparr>"
proof -
  have p: "price_value ''1,234.50'' = Fin 1234.5"
    by (simp add: parse_float_eval)
  have a: "\<not> isNaN (date_value 0 ''01-Apr-2024'')" and b: "\<not> isNaN (price_value ''1,234.50'')"
    by (simp_all add: p date_value_2024_04_01)
  from prepareData_single_row [OF a b] show ?thesis
    by (simp add: p date_value_2024_04_01)
qed

section \<open>Parsing a price\<close>

lemma digits_value_append:
  "digits_value (a @ b) = digits_value a * 10 ^ length b + digits_value b"
proof (induction b rule: rev_induct)
  case Nil
  show ?case by (simp add: digits_value_def)
next
  case (snoc c b)
  have "digits_value (a @ b @ [c]) = 10 * digits_value (a @ b) + digit_val c"
    using digits_value_snoc [of "a @ b" c] by simp
  then show ?case
    by (simp add: snoc digits_value_snoc algebra_simps)
qed








section \<open>Properties of the result table\<close>


















section \<open>The scaling and its inverse\<close>

lemma rne_error: "\<bar>real_of_int (rne x) - x\<bar> \<le> 1 / 2"
  unfolding rne_def Let_def by (auto simp: abs_le_iff)

lemma rne_of_int: "rne (real_of_int k) = k"
  by (simp add: rne_def)

lemma rne_nonneg: "0 \<le> x \<Longrightarrow> 0 \<le> rne x"
  unfolding rne_def Let_def by auto

lemma binade_bounds:
  assumes "x \<noteq> 0"
  shows "2 powr real_of_int (binade x) \<le> \<bar>x\<bar>" and "\<bar>x\<bar> < 2 powr (real_of_int (binade x) + 1)"
proof -
  have p: "0 < \<bar>x\<bar>" using assms by simp
  have "real_of_int (binade x) \<le> log 2 \<bar>x\<bar>"
    using assms by (simp add: binade_def)
  then show "2 powr real_of_int (binade x) \<le> \<bar>x\<bar>"
    using p by (simp add: le_log_iff)
  have "log 2 \<bar>x\<bar> < real_of_int (binade x) + 1"
    using assms by (simp add: binade_def)
  then show "\<bar>x\<bar> < 2 powr (real_of_int (binade x) + 1)"
    using p by (simp add: log_less_iff)
qed

lemma binade_eq:
  assumes "2 powr real_of_int e \<le> \<bar>x\<bar>" and "\<bar>x\<bar> < 2 powr (real_of_int e + 1)"
  shows "binade x = e"
proof -
  have p: "0 < \<bar>x\<bar>"
    using assms(1) powr_gt_zero [of 2 "real_of_int e"] by linarith
  then have nz: "x \<noteq> 0" by auto
  have a: "real_of_int e \<le> log 2 \<bar>x\<bar>"
    using assms(1) p by (simp add: le_log_iff)
  have b: "log 2 \<bar>x\<bar> < real_of_int e + 1"
    using assms(2) p by (simp add: log_less_iff)
  have "\<lfloor>log 2 \<bar>x\<bar>\<rfloor> = e"
    using a b by (simp add: floor_eq_iff)
  then show ?thesis
    using nz by (simp add: binade_def)
qed

lemma round_to_error_ulp:
  "\<bar>round_to p emin x - x\<bar> \<le> 2 powr real_of_int (max (binade x) emin - int p)"
proof -
  define e where "e = max (binade x) emin"
  define q where "q = 2 powr real_of_int (e - int p + 1)"
  have q: "0 < q" by (simp add: q_def)
  have r: "round_to p emin x = real_of_int (rne (x / q)) * q"
    by (simp add: round_to_def Let_def e_def q_def)
  have "round_to p emin x - x = (real_of_int (rne (x / q)) - x / q) * q"
    using q by (simp add: r algebra_simps)
  then have "\<bar>round_to p emin x - x\<bar> = \<bar>real_of_int (rne (x / q)) - x / q\<bar> * q"
    using q by (simp add: abs_mult)
  also have "\<dots> \<le> (1 / 2) * q"
    using rne_error [of "x / q"] q by (intro mult_right_mono) simp_all
  also have "(1 / 2) * q = 2 powr real_of_int (e - int p)"
  proof -
    have "real_of_int (e - int p + 1) = real_of_int (e - int p) + 1" by simp
    then have "q = 2 powr real_of_int (e - int p) * 2"
      unfolding q_def by (simp only: powr_add) simp
    then show ?thesis by simp
  qed
  finally show ?thesis by (simp add: e_def)
qed

lemma round_to_error_normal:
  assumes "x \<noteq> 0" and "emin \<le> binade x"
  shows "\<bar>round_to p emin x - x\<bar> \<le> \<bar>x\<bar> / 2 ^ p"
proof -
  have m: "max (binade x) emin = binade x" using assms(2) by simp
  have "2 powr real_of_int (binade x - int p) = 2 powr real_of_int (binade x) / 2 ^ p"
    by (simp add: powr_diff powr_realpow)
  also have "\<dots> \<le> \<bar>x\<bar> / 2 ^ p"
    using binade_bounds(1) [OF assms(1)] by (simp add: divide_right_mono)
  finally show ?thesis
    using round_to_error_ulp [of p emin x] by (simp add: m)
qed

lemma round_to_zero: "round_to p emin 0 = 0"
  by (simp add: round_to_def rne_def)

lemma round_to_error:
  "\<bar>round_to p emin x - x\<bar> \<le> \<bar>x\<bar> / 2 ^ p + 2 powr real_of_int (emin - int p)"
proof (cases "x \<noteq> 0 \<and> emin \<le> binade x")
  case True
  then show ?thesis
    using round_to_error_normal [of x emin p] powr_ge_zero [of 2 "real_of_int (emin - int p)"]
    by linarith
next
  case False
  show ?thesis
  proof (cases "x = 0")
    case True
    then show ?thesis by (simp add: round_to_zero)
  next
    case nz: False
    then have "max (binade x) emin = emin" using False by simp
    then have "\<bar>round_to p emin x - x\<bar> \<le> 2 powr real_of_int (emin - int p)"
      using round_to_error_ulp [of p emin x] by simp
    moreover have "0 \<le> \<bar>x\<bar> / 2 ^ p" by simp
    ultimately show ?thesis by linarith
  qed
qed

lemma round_to_nonneg: "0 \<le> x \<Longrightarrow> 0 \<le> round_to p emin x"
  by (simp add: round_to_def Let_def rne_nonneg)

lemma on_grid_multiple:
  "on_grid p emin x \<longleftrightarrow> (\<exists>k. x = real_of_int k * 2 powr real_of_int (emin - int p + 1))"
proof
  define q0 where "q0 = 2 powr real_of_int (emin - int p + 1)"
  have q0: "q0 \<noteq> 0" by (simp add: q0_def)
  assume "on_grid p emin x"
  then have f: "real_of_int \<lfloor>x / q0\<rfloor> = x / q0"
    by (simp add: on_grid_def Let_def q0_def)
  have "x = x / q0 * q0"
    using q0 by simp
  then have "x = real_of_int \<lfloor>x / q0\<rfloor> * q0"
    by (simp only: f)
  then show "\<exists>k. x = real_of_int k * 2 powr real_of_int (emin - int p + 1)"
    unfolding q0_def by blast
next
  define q0 where "q0 = 2 powr real_of_int (emin - int p + 1)"
  have q0: "q0 \<noteq> 0" by (simp add: q0_def)
  assume "\<exists>k. x = real_of_int k * 2 powr real_of_int (emin - int p + 1)"
  then obtain k where "x = real_of_int k * q0"
    unfolding q0_def by blast
  then have "x / q0 = real_of_int k"
    using q0 by simp
  then have "real_of_int \<lfloor>x / q0\<rfloor> = x / q0"
    by simp
  then show "on_grid p emin x"
    by (simp add: on_grid_def Let_def q0_def)
qed

lemma round_to_on_grid: "on_grid p emin (round_to p emin x)"
proof -
  define e where "e = max (binade x) emin"
  define n where "n = nat (e - emin)"
  define q0 where "q0 = 2 powr real_of_int (emin - int p + 1)"
  define m where "m = rne (x / 2 powr real_of_int (e - int p + 1))"
  have ge: "emin \<le> e" by (simp add: e_def)
  have "real_of_int (e - int p + 1) = real_of_int (emin - int p + 1) + real n"
    using ge by (simp add: n_def)
  then have "2 powr real_of_int (e - int p + 1) = 2 powr (real_of_int (emin - int p + 1) + real n)"
    by (simp only:)
  also have "\<dots> = q0 * 2 powr real n"
    unfolding q0_def by (rule powr_add)
  also have "2 powr real n = 2 ^ n"
    by (simp add: powr_realpow)
  finally have pw: "2 powr real_of_int (e - int p + 1) = q0 * 2 ^ n" .
  have "round_to p emin x = real_of_int m * 2 powr real_of_int (e - int p + 1)"
    unfolding round_to_def Let_def e_def m_def by (rule refl)
  also have "\<dots> = real_of_int m * (q0 * 2 ^ n)"
    by (simp only: pw)
  also have "\<dots> = real_of_int (m * 2 ^ n) * q0"
    by simp
  finally show ?thesis
    unfolding on_grid_multiple q0_def by blast
qed

lemma on_grid_diff:
  assumes "on_grid p emin x" and "on_grid p emin y"
  shows "on_grid p emin (x - y)"
proof -
  define q0 where "q0 = 2 powr real_of_int (emin - int p + 1)"
  obtain k l where "x = real_of_int k * q0" and "y = real_of_int l * q0"
    using assms unfolding on_grid_multiple q0_def by blast
  then have "x - y = real_of_int (k - l) * q0"
    by (simp add: left_diff_distrib)
  then show ?thesis
    unfolding on_grid_multiple q0_def by blast
qed

lemma on_grid_add:
  assumes "on_grid p emin x" and "on_grid p emin y"
  shows "on_grid p emin (x + y)"
proof -
  define q0 where "q0 = 2 powr real_of_int (emin - int p + 1)"
  obtain k l where "x = real_of_int k * q0" and "y = real_of_int l * q0"
    using assms unfolding on_grid_multiple q0_def by blast
  then have "x + y = real_of_int (k + l) * q0"
    by (simp add: distrib_right)
  then show ?thesis
    unfolding on_grid_multiple q0_def by blast
qed

lemma round_to_error_grid:
  assumes "on_grid p emin x"
  shows "\<bar>round_to p emin x - x\<bar> \<le> \<bar>x\<bar> / 2 ^ p"
proof (cases "x \<noteq> 0 \<and> emin \<le> binade x")
  case True
  then show ?thesis
    using round_to_error_normal [of x emin p] by simp
next
  case False
  show ?thesis
  proof (cases "x = 0")
    case True
    then show ?thesis by (simp add: round_to_zero)
  next
    case nz: False
    then have m: "max (binade x) emin = emin" using False by simp
    define q0 where "q0 = 2 powr real_of_int (emin - int p + 1)"
    have q0: "q0 \<noteq> 0" by (simp add: q0_def)
    obtain k where k: "x = real_of_int k * q0"
      using assms unfolding on_grid_multiple q0_def by blast
    have h: "x / q0 = real_of_int k"
      using q0 by (simp add: k)
    have "round_to p emin x = real_of_int (rne (x / q0)) * q0"
      unfolding round_to_def Let_def m q0_def by (rule refl)
    also have "\<dots> = real_of_int k * q0"
      by (simp only: h rne_of_int)
    also have "\<dots> = x"
      by (simp only: k)
    finally show ?thesis by simp
  qed
qed

lemma scaled_errors:
  fixes R n M v lo D N Q X p res :: real
  assumes R: "0 < R" and n: "0 \<le> n" "n \<le> R" and v: "n = v - lo" "\<bar>v\<bar> \<le> M"
    and D: "\<bar>D - R\<bar> \<le> R / 2 ^ 53"
    and N: "\<bar>N - n\<bar> \<le> n / 2 ^ 53"
    and Q: "\<bar>Q - N\<bar> \<le> N / 2 ^ 53 + D / 2 ^ 1075"
    and X: "\<bar>X - Q\<bar> \<le> Q / 2 ^ 24 + D / 2 ^ 150"
    and P: "\<bar>p - X\<bar> \<le> X / 2 ^ 53 + 1 / 2 ^ 1075"
    and S: "\<bar>res - (p + lo)\<bar> \<le> \<bar>p + lo\<bar> / 2 ^ 53"
  shows "\<bar>X - n\<bar> \<le> R / 2 ^ 23"
    and "\<bar>p - n\<bar> \<le> R / 2 ^ 23 + 1 / 2 ^ 1075"
    and "\<bar>res - v\<bar> \<le> R / 2 ^ 23 + M / 2 ^ 53 + 1 / 2 ^ 1074"
proof -
  note D' = D [unfolded abs_le_iff] and N' = N [unfolded abs_le_iff]
    and Q' = Q [unfolded abs_le_iff] and X' = X [unfolded abs_le_iff]
    and P' = P [unfolded abs_le_iff]
  have N1: "N - n \<le> R / 2 ^ 53" "n - N \<le> R / 2 ^ 53" and N2: "N \<le> R + R / 2 ^ 53"
    using N' n by simp_all
  have D2: "D \<le> R + R / 2 ^ 53"
    using D' by simp
  have Q1: "Q - n \<le> R / 2 ^ 51" "n - Q \<le> R / 2 ^ 51"
    using Q' N1 N2 D2 R by simp_all
  have X1: "X - n \<le> R / 2 ^ 24 + R / 2 ^ 50" "n - X \<le> R / 2 ^ 24 + R / 2 ^ 50"
    using X' Q1 D2 n R by simp_all
  show X2: "\<bar>X - n\<bar> \<le> R / 2 ^ 23"
    unfolding abs_le_iff using X1 R by simp
  have P1: "p - n \<le> R / 2 ^ 24 + R / 2 ^ 49 + 1 / 2 ^ 1075"
    "n - p \<le> R / 2 ^ 24 + R / 2 ^ 49 + 1 / 2 ^ 1075"
    using P' X1 n R by simp_all
  show "\<bar>p - n\<bar> \<le> R / 2 ^ 23 + 1 / 2 ^ 1075"
    unfolding abs_le_iff using P1 R by simp
  have s: "p + lo = v + (p - n)"
    using v(1) by simp
  define e where "e = p - n"
  have e: "e \<le> R / 2 ^ 24 + R / 2 ^ 49 + 1 / 2 ^ 1075" "- e \<le> R / 2 ^ 24 + R / 2 ^ 49 + 1 / 2 ^ 1075"
    using P1 by (simp_all add: e_def)
  have S1: "\<bar>v + e\<bar> \<le> M + (R / 2 ^ 24 + R / 2 ^ 49 + 1 / 2 ^ 1075)"
    using e v(2) by linarith
  have S2: "\<bar>res - (v + e)\<bar> \<le> \<bar>v + e\<bar> / 2 ^ 53"
    using S by (simp add: s e_def)
  have S3: "\<bar>res - (v + e)\<bar> \<le> (M + (R / 2 ^ 24 + R / 2 ^ 49 + 1 / 2 ^ 1075)) / 2 ^ 53"
    using S2 S1 by (meson divide_right_mono order_trans zero_le_numeral zero_le_power)
  have "\<bar>res - v\<bar> \<le> \<bar>res - (v + e)\<bar> + \<bar>e\<bar>"
    by linarith
  moreover have "\<bar>e\<bar> \<le> R / 2 ^ 24 + R / 2 ^ 49 + 1 / 2 ^ 1075"
    unfolding abs_le_iff using e by simp
  ultimately have "\<bar>res - v\<bar> \<le> (M + (R / 2 ^ 24 + R / 2 ^ 49 + 1 / 2 ^ 1075)) / 2 ^ 53
      + (R / 2 ^ 24 + R / 2 ^ 49 + 1 / 2 ^ 1075)"
    using S3 by linarith
  moreover have "(M + (R / 2 ^ 24 + R / 2 ^ 49 + 1 / 2 ^ 1075)) / 2 ^ 53
      + (R / 2 ^ 24 + R / 2 ^ 49 + 1 / 2 ^ 1075) \<le> R / 2 ^ 23 + M / 2 ^ 53 + 1 / 2 ^ 1074"
  proof -
    define A :: real where "A = 1 / 2 ^ 1075"
    have A: "0 \<le> A" "1 / 2 ^ 1074 = 2 * A"
      by (simp_all add: A_def)
    have "(M + (R / 2 ^ 24 + R / 2 ^ 49 + A)) / 2 ^ 53 + (R / 2 ^ 24 + R / 2 ^ 49 + A)
        \<le> R / 2 ^ 23 + M / 2 ^ 53 + 2 * A"
      using R A(1) by (simp add: add_divide_distrib)
    then show ?thesis
      by (simp only: A(2) A_def [symmetric])
  qed
  ultimately show "\<bar>res - v\<bar> \<le> R / 2 ^ 23 + M / 2 ^ 53 + 1 / 2 ^ 1074"
    by linarith
qed

lemma to_format_Fin:
  assumes "\<bar>round_to p emin x\<bar> < 2 powr real_of_int (emax + 1)"
  shows "to_format p emin emax x = Fin (round_to p emin x)"
  using assms by (simp add: to_format_def Let_def)

lemma binary64_Fin:
  assumes "\<bar>round_to 53 (- 1022) x\<bar> < 2 ^ 1024"
  shows "binary64 x = Fin (round_to 53 (- 1022) x)"
proof -
  have "2 powr real_of_int (1023 + 1) = (2::real) ^ 1024"
    by simp
  then show ?thesis
    unfolding binary64_def using assms to_format_Fin [of 53 "- 1022" x 1023] by simp
qed

lemma binary32_Fin:
  assumes "\<bar>round_to 24 (- 126) x\<bar> < 2 ^ 128"
  shows "binary32 x = Fin (round_to 24 (- 126) x)"
proof -
  have "2 powr real_of_int (127 + 1) = (2::real) ^ 128"
    by simp
  then show ?thesis
    unfolding binary32_def using assms to_format_Fin [of 24 "- 126" x 127] by simp
qed

lemma binary64_on_grid:
  assumes "binary64 x = Fin x"
  shows "on_grid 53 (- 1022) x"
proof -
  have "round_to 53 (- 1022) x = x"
    using assms by (simp add: binary64_def to_format_def Let_def signed_inf_def split: if_splits)
  then show ?thesis
    using round_to_on_grid [of 53 "- 1022" x] by simp
qed

lemma r64_error: "\<bar>round_to 53 (- 1022) x - x\<bar> \<le> \<bar>x\<bar> / 2 ^ 53 + 1 / 2 ^ 1075"
proof -
  have "2 powr real_of_int (- 1022 - int 53) = (1::real) / 2 ^ 1075"
    by (simp add: powr_minus_divide)
  then show ?thesis
    using round_to_error [of 53 "- 1022" x] by simp
qed

lemma r32_error: "\<bar>round_to 24 (- 126) x - x\<bar> \<le> \<bar>x\<bar> / 2 ^ 24 + 1 / 2 ^ 150"
proof -
  have "2 powr real_of_int (- 126 - int 24) = (1::real) / 2 ^ 150"
    by (simp add: powr_minus_divide)
  then show ?thesis
    using round_to_error [of 24 "- 126" x] by simp
qed

lemma fl_sub: "rounded binary64 (js_sub (Fin a) (Fin b)) = binary64 (a - b)"
  by (simp add: rounded_def js_sub_def)

lemma fl_div: "d \<noteq> 0 \<Longrightarrow> rounded binary64 (js_div (Fin a) (Fin d)) = binary64 (a / d)"
  by (simp add: rounded_def)

lemma fl_mul: "rounded binary64 (js_mul (Fin a) (Fin b)) = binary64 (a * b)"
  by (simp add: rounded_def)

lemma fl_add: "rounded binary64 (js_add (Fin a) (Fin b)) = binary64 (a + b)"
  by (simp add: rounded_def)

lemma fround: "tensor2d (Fin a) = binary32 a"
  by (simp add: tensor2d_def rounded_def)

text \<open>
  C3. For doubles \<open>lo < hi\<close> of magnitude at most \<open>2^1023\<close>, no further apart than
  \<open>2^1023\<close>, and a double \<open>v\<close> from \<open>lo\<close> to \<open>hi\<close>: the value scaled with
  \<open>(v - lo) / (hi - lo)\<close>, stored in a tensor and scaled back with \<open>x * (hi - lo) + lo\<close>
  is a finite number, and it differs from \<open>v\<close> by at most
  \<open>(hi - lo) / 2^23 + max(|lo|, |hi|) / 2^53 + 2^-1074\<close>: the rounding of single precision
  on the range, that of double precision on the values, and the smallest double.
\<close>

theorem scaling_round_trip:
  assumes dbl: "binary64 lo = Fin lo" "binary64 hi = Fin hi" "binary64 v = Fin v"
    and ord: "lo < hi" "lo \<le> v" "v \<le> hi"
    and mag: "\<bar>lo\<bar> \<le> 2 ^ 1023" "\<bar>hi\<bar> \<le> 2 ^ 1023" "hi - lo \<le> 2 ^ 1023"
  shows "\<exists>r. round_trip (Fin v) (Fin lo) (Fin hi) = Fin r
           \<and> \<bar>r - v\<bar> \<le> (hi - lo) / 2 ^ 23 + max \<bar>lo\<bar> \<bar>hi\<bar> / 2 ^ 53 + 1 / 2 ^ 1074"
proof -
  define R where "R = hi - lo"
  define n where "n = v - lo"
  define M where "M = max \<bar>lo\<bar> \<bar>hi\<bar>"
  define D where "D = round_to 53 (- 1022) R"
  define N where "N = round_to 53 (- 1022) n"
  define q where "q = round_to 53 (- 1022) (N / D)"
  define x where "x = round_to 24 (- 126) q"
  define p where "p = round_to 53 (- 1022) (x * D)"
  define res where "res = round_to 53 (- 1022) (p + lo)"
  have R: "0 < R" "R \<le> 2 ^ 1023"
    using ord(1) mag(3) by (simp_all add: R_def)
  have n: "0 \<le> n" "n \<le> R"
    using ord by (simp_all add: n_def R_def)
  have M: "\<bar>v\<bar> \<le> M" "M \<le> 2 ^ 1023"
    using ord mag(1,2) unfolding M_def by linarith+
  have gl: "on_grid 53 (- 1022) lo" and gh: "on_grid 53 (- 1022) hi"
    and gv: "on_grid 53 (- 1022) v"
    by (rule binary64_on_grid, rule dbl)+
  have eD: "\<bar>D - R\<bar> \<le> R / 2 ^ 53"
    using round_to_error_grid [OF on_grid_diff [OF gh gl]] R(1) by (simp add: D_def R_def)
  have eN: "\<bar>N - n\<bar> \<le> n / 2 ^ 53"
    using round_to_error_grid [OF on_grid_diff [OF gv gl]] n(1) by (simp add: N_def n_def)
  have D: "0 < D" "D \<le> R + R / 2 ^ 53" "R \<le> 2 * D"
    using eD [unfolded abs_le_iff] R(1) by simp_all
  have N: "0 \<le> N" "N \<le> R + R / 2 ^ 53"
    using eN [unfolded abs_le_iff] n round_to_nonneg [OF n(1), of 53 "- 1022"]
    by (simp_all add: N_def)
  have t: "0 \<le> N / D"
    using N(1) D(1) by simp
  have q0: "0 \<le> q"
    unfolding q_def by (rule round_to_nonneg [OF t])
  have x0: "0 \<le> x"
    unfolding x_def by (rule round_to_nonneg [OF q0])
  have eq: "\<bar>q - N / D\<bar> \<le> N / D / 2 ^ 53 + 1 / 2 ^ 1075"
    using r64_error [of "N / D"] t by (simp add: q_def)
  have "q * D - N = (q - N / D) * D"
    using D(1) by (simp add: left_diff_distrib)
  then have "\<bar>q * D - N\<bar> = \<bar>q - N / D\<bar> * \<bar>D\<bar>"
    by (simp only: abs_mult)
  also have "\<dots> = \<bar>q - N / D\<bar> * D"
    using D(1) by simp
  finally have "\<bar>q * D - N\<bar> = \<bar>q - N / D\<bar> * D" .
  then have "\<bar>q * D - N\<bar> = \<bar>q - N / D\<bar> * D" .
  also have "\<dots> \<le> (N / D / 2 ^ 53 + 1 / 2 ^ 1075) * D"
    using eq D(1) by (intro mult_right_mono) simp_all
  also have "\<dots> = N / 2 ^ 53 + D / 2 ^ 1075"
    using D(1) by (simp add: distrib_right)
  finally have eQ: "\<bar>q * D - N\<bar> \<le> N / 2 ^ 53 + D / 2 ^ 1075" .
  have ex: "\<bar>x - q\<bar> \<le> q / 2 ^ 24 + 1 / 2 ^ 150"
    using r32_error [of q] q0 by (simp add: x_def)
  have "x * D - q * D = (x - q) * D"
    by (simp add: left_diff_distrib)
  then have "\<bar>x * D - q * D\<bar> = \<bar>x - q\<bar> * \<bar>D\<bar>"
    by (simp only: abs_mult)
  also have "\<dots> = \<bar>x - q\<bar> * D"
    using D(1) by simp
  finally have "\<bar>x * D - q * D\<bar> = \<bar>x - q\<bar> * D" .
  then have "\<bar>x * D - q * D\<bar> = \<bar>x - q\<bar> * D" .
  also have "\<dots> \<le> (q / 2 ^ 24 + 1 / 2 ^ 150) * D"
    using ex D(1) by (intro mult_right_mono) simp_all
  also have "\<dots> = q * D / 2 ^ 24 + D / 2 ^ 150"
    by (simp add: distrib_right)
  finally have eX: "\<bar>x * D - q * D\<bar> \<le> q * D / 2 ^ 24 + D / 2 ^ 150" .
  have xD: "0 \<le> x * D"
    using x0 D(1) by simp
  have ep: "\<bar>p - x * D\<bar> \<le> x * D / 2 ^ 53 + 1 / 2 ^ 1075"
    using r64_error [of "x * D"] xD by (simp add: p_def)
  have gp: "on_grid 53 (- 1022) p"
    unfolding p_def by (rule round_to_on_grid)
  have eres: "\<bar>res - (p + lo)\<bar> \<le> \<bar>p + lo\<bar> / 2 ^ 53"
    using round_to_error_grid [OF on_grid_add [OF gp gl]] by (simp add: res_def)
  note E = scaled_errors [OF R(1) n n_def M(1) eD eN eQ eX ep eres]
  have bD: "\<bar>D\<bar> < 2 ^ 1024"
    using D R by simp
  have bN: "\<bar>N\<bar> < 2 ^ 1024"
    using N R by simp
  define Q where "Q = q * D"
  have "Q \<le> 3 * D"
    using eQ [unfolded abs_le_iff] N D unfolding Q_def [symmetric] by simp
  then have q3: "q \<le> 3"
    using D(1) by (simp add: Q_def)
  have bq: "\<bar>q\<bar> < 2 ^ 1024"
    using q0 q3 by simp
  have x4: "x \<le> 4"
    using ex [unfolded abs_le_iff] q3 q0 by simp
  have bx: "\<bar>x\<bar> < 2 ^ 128"
    using x0 x4 by simp
  have bp: "\<bar>p\<bar> < 2 ^ 1024"
    using E(2) [unfolded abs_le_iff] n R by (simp add: abs_less_iff)
  have bres: "\<bar>res\<bar> < 2 ^ 1024"
    using E(3) [unfolded abs_le_iff] M [unfolded abs_le_iff] R by (simp add: abs_less_iff)
  have s1: "rounded binary64 (js_sub (Fin hi) (Fin lo)) = Fin D"
    unfolding fl_sub using binary64_Fin [of "hi - lo"] bD by (simp add: D_def R_def)
  have s2: "rounded binary64 (js_sub (Fin v) (Fin lo)) = Fin N"
    unfolding fl_sub using binary64_Fin [of "v - lo"] bN by (simp add: N_def n_def)
  have Dnz: "D \<noteq> 0"
    using D(1) by simp
  have s3: "rounded binary64 (js_div (Fin N) (Fin D)) = Fin q"
    unfolding fl_div [OF Dnz] using binary64_Fin [of "N / D"] bq by (simp add: q_def)
  have s4: "tensor2d (Fin q) = Fin x"
    unfolding fround using binary32_Fin [of q] bx by (simp add: x_def)
  have s5: "rounded binary64 (js_mul (Fin x) (Fin D)) = Fin p"
    unfolding fl_mul using binary64_Fin [of "x * D"] bp by (simp add: p_def)
  have s6: "rounded binary64 (js_add (Fin p) (Fin lo)) = Fin res"
    unfolding fl_add using binary64_Fin [of "p + lo"] bres by (simp add: res_def)
  have "round_trip (Fin v) (Fin lo) (Fin hi) = Fin res"
    unfolding round_trip_def normalize_fl_def denormalize_fl_def s1 s2 s3 s4 s5 s6 by (rule refl)
  then show ?thesis
    using E(3) by (simp add: R_def M_def)
qed

lemma round_to_at:
  assumes "2 powr real_of_int e \<le> \<bar>x\<bar>" and "\<bar>x\<bar> < 2 powr (real_of_int e + 1)" and "emin \<le> e"
  shows "round_to p emin x
     = real_of_int (rne (x / 2 powr real_of_int (e - int p + 1))) * 2 powr real_of_int (e - int p + 1)"
proof -
  have "max (binade x) emin = e"
    using binade_eq [OF assms(1,2)] assms(3) by simp
  then show ?thesis
    by (simp add: round_to_def Let_def)
qed

lemma binary64_0: "binary64 0 = Fin 0"
  by (simp add: binary64_def to_format_def round_to_zero)

lemma binary32_0: "binary32 0 = Fin 0"
  by (simp add: binary32_def to_format_def round_to_zero)

lemma r64_1: "round_to 53 (- 1022) 1 = 1"
  using round_to_at [of 0 1 "- 1022" 53] by (simp add: powr_minus_divide rne_def)

lemma r64_3: "round_to 53 (- 1022) 3 = 3"
  using round_to_at [of 1 3 "- 1022" 53] by (simp add: powr_minus_divide rne_def)

lemma binary64_1: "binary64 1 = Fin 1"
  using binary64_Fin [of 1] by (simp add: r64_1)

lemma binary64_3: "binary64 3 = Fin 3"
  using binary64_Fin [of 3] by (simp add: r64_3)

lemma r64_third: "round_to 53 (- 1022) (1 / 3) = 6004799503160661 / 18014398509481984"
  using round_to_at [of "- 2" "1 / 3" "- 1022" 53] by (simp add: powr_minus_divide rne_def)

lemma r32_third:
  "round_to 24 (- 126) (6004799503160661 / 18014398509481984) = 11184811 / 33554432"
  using round_to_at [of "- 2" "6004799503160661 / 18014398509481984" "- 126" 24]
  by (simp add: powr_minus_divide rne_def)

lemma r64_product: "round_to 53 (- 1022) (33554433 / 33554432) = 33554433 / 33554432"
  using round_to_at [of 0 "33554433 / 33554432" "- 1022" 53]
  by (simp add: powr_minus_divide rne_def)

lemma round_trip_1_0_3: "round_trip (Fin 1) (Fin 0) (Fin 3) = Fin (33554433 / 33554432)"
proof -
  have a: "rounded binary64 (js_sub (Fin 3) (Fin 0)) = Fin 3"
    unfolding fl_sub using binary64_3 by simp
  have b: "rounded binary64 (js_sub (Fin 1) (Fin 0)) = Fin 1"
    unfolding fl_sub using binary64_1 by simp
  have c: "rounded binary64 (js_div (Fin 1) (Fin 3)) = Fin (6004799503160661 / 18014398509481984)"
    using binary64_Fin [of "1 / 3"] by (simp add: rounded_def r64_third)
  have d: "tensor2d (Fin (6004799503160661 / 18014398509481984)) = Fin (11184811 / 33554432)"
    unfolding fround using binary32_Fin [of "6004799503160661 / 18014398509481984"]
    by (simp add: r32_third)
  have e: "rounded binary64 (js_mul (Fin (11184811 / 33554432)) (Fin 3))
      = Fin (33554433 / 33554432)"
    using binary64_Fin [of "33554433 / 33554432"] by (simp add: rounded_def r64_product)
  have f: "rounded binary64 (js_add (Fin (33554433 / 33554432)) (Fin 0))
      = Fin (33554433 / 33554432)"
    using binary64_Fin [of "33554433 / 33554432"] by (simp add: rounded_def r64_product)
  show ?thesis
    unfolding round_trip_def normalize_fl_def denormalize_fl_def a b c d e f by (rule refl)
qed

text \<open>
  The theorem at \<open>v = 1\<close> in the range from 0 to 3, where the program computes
  1.0000000298 (the single-precision neighbour of a third, times three).
\<close>

theorem scaling_round_trip_witness:
  "round_trip (Fin 1) (Fin 0) (Fin 3) = Fin (33554433 / 33554432)
   \<and> \<bar>33554433 / 33554432 - (1::real)\<bar> \<le> (3 - 0) / 2 ^ 23 + max \<bar>0\<bar> \<bar>3\<bar> / 2 ^ 53 + 1 / 2 ^ 1074"
proof -
  have h: "(0::real) < 3" "(0::real) \<le> 1" "(1::real) \<le> 3" "\<bar>0::real\<bar> \<le> 2 ^ 1023"
    "\<bar>3::real\<bar> \<le> 2 ^ 1023" "(3::real) - 0 \<le> 2 ^ 1023"
    by simp_all
  from scaling_round_trip [OF binary64_0 binary64_3 binary64_1 h]
  show ?thesis
    by (simp add: round_trip_1_0_3)
qed

lemma r64_big: "round_to 53 (- 1022) (2 ^ 1023) = 2 ^ 1023"
  using round_to_at [of 1023 "2 ^ 1023" "- 1022" 53] by (simp add: rne_def)

lemma r64_big_neg: "round_to 53 (- 1022) (- (2 ^ 1023)) = - (2 ^ 1023)"
  using round_to_at [of 1023 "- (2 ^ 1023)" "- 1022" 53] by (simp add: rne_def)

lemma r64_over: "round_to 53 (- 1022) (2 ^ 1024) = 2 ^ 1024"
  using round_to_at [of 1024 "2 ^ 1024" "- 1022" 53] by (simp add: rne_def)

text \<open>
  Further apart the difference \<open>hi - lo\<close> can overflow: from \<open>-2^1023\<close> to \<open>2^1023\<close> it
  is infinite, every scaled value is 0, and scaling back gives \<open>NaN\<close>.
\<close>

theorem scaling_overflow_counterexample:
  "binary64 (- (2 ^ 1023)) = Fin (- (2 ^ 1023)) \<and> binary64 (2 ^ 1023) = Fin (2 ^ 1023)
   \<and> binary64 0 = Fin 0
   \<and> round_trip (Fin 0) (Fin (- (2 ^ 1023))) (Fin (2 ^ 1023)) = NaN"
proof -
  have "\<bar>round_to 53 (- 1022) (- (2 ^ 1023))\<bar> < 2 ^ 1024"
    unfolding r64_big_neg by simp
  from binary64_Fin [OF this] have lo: "binary64 (- (2 ^ 1023)) = Fin (- (2 ^ 1023))"
    unfolding r64_big_neg .
  have "\<bar>round_to 53 (- 1022) (2 ^ 1023)\<bar> < 2 ^ 1024"
    unfolding r64_big by simp
  from binary64_Fin [OF this] have hi: "binary64 (2 ^ 1023) = Fin (2 ^ 1023)"
    unfolding r64_big .
  have over: "binary64 (2 ^ 1024) = PInf"
    unfolding binary64_def to_format_def Let_def r64_over by (simp add: signed_inf_def)
  have d1: "(2::real) ^ 1023 - - (2 ^ 1023) = 2 ^ 1024"
    by simp
  have d2: "(0::real) - - (2 ^ 1023) = 2 ^ 1023"
    by simp
  have a: "rounded binary64 (js_sub (Fin (2 ^ 1023)) (Fin (- (2 ^ 1023)))) = PInf"
    unfolding fl_sub d1 by (rule over)
  have b: "rounded binary64 (js_sub (Fin 0) (Fin (- (2 ^ 1023)))) = Fin (2 ^ 1023)"
    unfolding fl_sub d2 by (rule hi)
  have c: "rounded binary64 (js_div (Fin (2 ^ 1023)) PInf) = Fin 0"
    by (simp add: rounded_def binary64_0)
  have d: "tensor2d (Fin 0) = Fin 0"
    by (simp add: fround binary32_0)
  have e: "rounded binary64 (js_mul (Fin 0) PInf) = NaN"
    by (simp add: rounded_def)
  have f: "rounded binary64 (js_add NaN (Fin (- (2 ^ 1023)))) = NaN"
    by (simp add: rounded_def)
  have "round_trip (Fin 0) (Fin (- (2 ^ 1023))) (Fin (2 ^ 1023)) = NaN"
    unfolding round_trip_def normalize_fl_def denormalize_fl_def a b c d e f by (rule refl)
  with lo hi binary64_0 show ?thesis
    by (intro conjI)
qed

section \<open>What the loop returns\<close>

lemma scanned_length: "length (scanned tza t) = 30"
  using six_weeks_count [of tza t]
  by (simp add: scanned_def days_from_map filter_map comp_def)

lemma scanned_days:
  "take 30 (filter (local_weekday tza) (days_from 42 t))
     = map (\<lambda>k. t + int k * msPerDay) (scanned tza t)"
proof -
  have "filter (local_weekday tza) (days_from 42 t) = map (\<lambda>k. t + int k * msPerDay) (scanned tza t)"
    by (simp add: scanned_def days_from_map filter_map comp_def)
  then show ?thesis
    by (simp add: scanned_length)
qed

text \<open>
  What the loop returns inside the range of time values: the UTC date texts of the
  instants \<open>t + k\<close> days, for exactly those \<open>k\<close> below 42, in increasing order, at which
  the local day of the week is Monday to Friday; there are 30 of them. On a host in
  UTC (\<open>tza = 0\<close>) the local day of the week is the day of the week of the date written,
  so no entry is a Saturday or a Sunday and only those are skipped.
\<close>

lemma getNext30Weekdays_scanned:
  assumes "- 8640000000000000 \<le> t" and "t + 41 * msPerDay \<le> 8640000000000000"
  shows "getNext30Weekdays tza (Some t)
           = Some (Inr (map (\<lambda>k. utc_date_text (t + int k * msPerDay)) (scanned tza t)))"
    and "length (scanned tza t) = 30"
    and "sorted_wrt (<) (scanned tza t)"
    and "\<forall>k. k \<in> set (scanned tza t) \<longleftrightarrow> k < 42 \<and> local_weekday tza (t + int k * msPerDay)"
proof -
  have "weekdays_run 42 tza [] (Date_copy (Some t))
          = Some (Inr (map (\<lambda>k. utc_date_text (t + int k * msPerDay)) (scanned tza t)))"
    by (simp add: getNext30Weekdays_char [OF assms] scanned_days comp_def)
  then show "getNext30Weekdays tza (Some t)
           = Some (Inr (map (\<lambda>k. utc_date_text (t + int k * msPerDay)) (scanned tza t)))"
    unfolding getNext30Weekdays_def by (rule run_loop)
  show "length (scanned tza t) = 30"
    by (rule scanned_length)
  show "sorted_wrt (<) (scanned tza t)"
    unfolding scanned_def by (rule sorted_wrt_filter) simp
  show "\<forall>k. k \<in> set (scanned tza t) \<longleftrightarrow> k < 42 \<and> local_weekday tza (t + int k * msPerDay)"
    by (auto simp: scanned_def)
qed

lemma local_weekday_utc: "local_weekday 0 t \<longleftrightarrow> WeekDay t \<noteq> 0 \<and> WeekDay t \<noteq> 6"
  by (simp add: local_weekday_def LocalTime_def)

section \<open>The ISO form of a date\<close>

text \<open>
  A text in the date-only ISO form is read by the parser as the day it names, at midnight
  UTC, whatever the zone of the host.
\<close>

lemma digits_value_Cons: "digits_value (c # ds) = digit_val c * 10 ^ length ds + digits_value ds"
  using digits_value_append [of "[c]" ds] by (simp add: digits_value_def)

lemma digits_value_leading_zeros:
  "digits_value (dropWhile (\<lambda>c. c = CHR ''0'') ds) = digits_value ds"
  by (induction ds) (simp_all add: digits_value_Cons digit_val_def)

lemma ReadUnsignedNumeral_short:
  assumes "length ds \<le> 9"
  shows "ReadUnsignedNumeral ds = int (digits_value ds)"
proof -
  have "length (dropWhile (\<lambda>c. c = CHR ''0'') ds) \<le> 9"
    using assms length_dropWhile_le [of "\<lambda>c. c = CHR ''0''" ds] by linarith
  then show ?thesis
    by (simp add: ReadUnsignedNumeral_def digits_value_leading_zeros)
qed

lemma tokens_digits:
  assumes "list_all is_digit ds" and "ds \<noteq> []" and "r = [] \<or> \<not> is_digit (hd r)"
  shows "tokens (ds @ r) = Number (ReadUnsignedNumeral ds) (length ds) # tokens r"
proof -
  obtain c ds' where ds: "ds = c # ds'"
    using assms(2) by (cases ds) auto
  have c: "is_digit c" and ds': "list_all is_digit ds'"
    using assms(1) by (simp_all add: ds)
  have r: "takeWhile is_digit r = []"
    using assms(3) by (cases r) auto
  have t: "takeWhile is_digit (ds' @ r) = ds'"
    using ds' r by (simp add: takeWhile_append2 list_all_iff)
  show ?thesis
    by (simp add: ds Scan_def c t)
qed

lemma tokens_dash: "tokens (CHR ''-'' # r) = Symbol CHR ''-'' # tokens r"
  by (simp add: Scan_def is_digit_def)

lemma tokens_plus: "tokens (CHR ''+'' # r) = Symbol CHR ''+'' # tokens r"
  by (simp add: Scan_def is_digit_def)

lemma digit_not_nul: "is_digit c \<Longrightarrow> (of_char c :: nat) \<noteq> 0"
  by (simp add: is_digit_def)

lemma iso_tokens:
  assumes "list_all is_digit ys" and "ys \<noteq> []" and "list_all is_digit ms" and "ms \<noteq> []"
    and "list_all is_digit ds" and "ds \<noteq> []"
  shows "tokens (ys @ CHR ''-'' # ms @ CHR ''-'' # ds)
     = [Number (ReadUnsignedNumeral ys) (length ys), Symbol CHR ''-'',
        Number (ReadUnsignedNumeral ms) (length ms), Symbol CHR ''-'',
        Number (ReadUnsignedNumeral ds) (length ds)]"
proof -
  have nd: "\<not> is_digit CHR ''-''" by (simp add: is_digit_def)
  have a: "tokens (ds @ []) = [Number (ReadUnsignedNumeral ds) (length ds)]"
    by (subst tokens_digits [OF assms(5,6)]) simp_all
  have b: "tokens (ms @ CHR ''-'' # ds)
     = Number (ReadUnsignedNumeral ms) (length ms) # tokens (CHR ''-'' # ds)"
    by (rule tokens_digits [OF assms(3,4)]) (simp add: nd)
  have c: "tokens (ys @ CHR ''-'' # ms @ CHR ''-'' # ds)
     = Number (ReadUnsignedNumeral ys) (length ys) # tokens (CHR ''-'' # ms @ CHR ''-'' # ds)"
    by (rule tokens_digits [OF assms(1,2)]) (simp add: nd)
  show ?thesis
    using a by (simp only: c tokens_dash b) simp
qed

lemma nul_free:
  assumes "\<forall>c\<in>set s. is_digit c \<or> c = CHR ''-'' \<or> c = CHR ''+''"
  shows "takeWhile (\<lambda>c. (of_char c :: nat) \<noteq> 0) s = s"
proof -
  have "\<forall>c\<in>set s. (of_char c :: nat) \<noteq> 0"
    using assms by (auto simp: is_digit_def)
  then show ?thesis by (simp add: takeWhile_eq_all_conv)
qed

lemma iso_parse:
  assumes "1 \<le> m" and "m \<le> 12" and "1 \<le> d" and "d \<le> 31"
  shows "DateParser_Parse [Number y 4, Symbol CHR ''-'', Number m 2, Symbol CHR ''-'', Number d 2]
         = Some ((y, m - 1, d), (0, 0, 0, 0), Some 0)"
  using assms by (simp add: parser_eval)


lemma iso_parse_plus:
  assumes "1 \<le> m" and "m \<le> 12" and "1 \<le> d" and "d \<le> 31"
  shows "DateParser_Parse
           [Symbol CHR ''+'', Number y 6, Symbol CHR ''-'', Number m 2, Symbol CHR ''-'', Number d 2]
         = Some ((y, m - 1, d), (0, 0, 0, 0), Some 0)"
  using assms by (simp add: parser_eval ascii_sign_def)

lemma iso_parse_minus:
  assumes "1 \<le> m" and "m \<le> 12" and "1 \<le> d" and "d \<le> 31" and "y \<noteq> 0"
  shows "DateParser_Parse
           [Symbol CHR ''-'', Number y 6, Symbol CHR ''-'', Number m 2, Symbol CHR ''-'', Number d 2]
         = Some ((- y, m - 1, d), (0, 0, 0, 0), Some 0)"
  using assms by (simp add: parser_eval ascii_sign_def)

lemma digits_value_zero:
  assumes "list_all is_digit ds" and "digits_value ds = 0"
  shows "ds = replicate (length ds) CHR ''0''"
  using assms
proof (induction ds)
  case Nil
  show ?case by simp
next
  case (Cons c ds)
  have z: "digit_val c = 0" "digits_value ds = 0"
    using Cons.prems(2) by (simp_all add: digits_value_Cons)
  have "is_digit c" using Cons.prems(1) by simp
  then have "(of_char c :: nat) = of_char CHR ''0''"
    using z(1) by (simp add: is_digit_def digit_val_def)
  then have "c = CHR ''0''"
    by (simp only: of_char_eq_iff)
  then show ?case
    using Cons z by simp
qed

lemma year_of_digits:
  assumes "list_all is_digit ys" and "ys \<noteq> []"
  shows "(case ys of
            c # r \<Rightarrow> if c = CHR ''-'' then - int (digits_value r)
                     else if c = CHR ''+'' then int (digits_value r)
                     else int (digits_value ys)
          | [] \<Rightarrow> 0) = int (digits_value ys)"
proof -
  obtain c r where ys: "ys = c # r"
    using assms(2) by (cases ys) auto
  have "is_digit c" using assms(1) by (simp add: ys)
  then have "c \<noteq> CHR ''-''" "c \<noteq> CHR ''+''"
    by (auto simp: is_digit_def)
  then show ?thesis by (simp add: ys)
qed

lemma Date_parse_tokens:
  assumes "DateParser_Parse (tokens s) = Some ((y, m, d), (0, 0, 0, 0), Some 0)"
    and "\<forall>c\<in>set s. is_digit c \<or> c = CHR ''-'' \<or> c = CHR ''+''"
  shows "Date_parse tza s = TimeClip (MakeDate (MakeDay (Some y) (Some m) (Some d)) (Some 0))"
  unfolding Date_parse_def nul_free [OF assms(2)] assms(1)
  by (simp add: MakeTime_def MakeDate_def MakeDay_def)

lemma Date_parse_iso_plain:
  assumes "length s = 10" and "s ! 4 = CHR ''-''" and "s ! 7 = CHR ''-''"
    and "list_all is_digit (take 4 s)"
    and "iso_fields (take 4 s) (take 2 (drop 5 s)) (drop 8 s) = Some t"
  shows "Date_parse tza s = Some t"
proof -
  define ys ms ds where "ys = take 4 s" and "ms = take 2 (drop 5 s)" and "ds = drop 8 s"
  have len: "length ys = 4" "length ms = 2" "length ds = 2"
    using assms(1) by (simp_all add: ys_def ms_def ds_def)
  have ne: "ys \<noteq> []" "ms \<noteq> []" "ds \<noteq> []"
    using len by auto
  have "s = take 4 s @ drop 4 s" by simp
  also have "drop 4 s = s ! 4 # drop 5 s"
    using assms(1) by (simp add: Cons_nth_drop_Suc [symmetric])
  also have "drop 5 s = take 2 (drop 5 s) @ drop 7 s"
    using append_take_drop_id [of 2 "drop 5 s"] by simp
  also have "drop 7 s = s ! 7 # drop 8 s"
    using assms(1) by (simp add: Cons_nth_drop_Suc [symmetric])
  finally have s: "s = ys @ CHR ''-'' # ms @ CHR ''-'' # ds"
    by (simp add: ys_def ms_def ds_def assms(2,3))
  have f: "iso_fields ys ms ds = Some t"
    using assms(5) by (simp add: ys_def ms_def ds_def)
  have dy: "list_all is_digit ys"
    using assms(4) by (simp add: ys_def)
  have dm: "list_all is_digit ms" and dd: "list_all is_digit ds"
    and rm: "1 \<le> int (digits_value ms)" "int (digits_value ms) \<le> 12"
    and rd: "1 \<le> int (digits_value ds)" "int (digits_value ds) \<le> 31"
    using f by (auto simp: iso_fields_def Let_def split: if_splits)
  have t: "TimeClip (MakeDate (MakeDay (Some (int (digits_value ys)))
              (Some (int (digits_value ms) - 1)) (Some (int (digits_value ds)))) (Some 0)) = Some t"
    using f dm dd rm rd by (simp add: iso_fields_def Let_def year_of_digits [OF dy ne(1)])
  have tk: "tokens s = [Number (int (digits_value ys)) 4, Symbol CHR ''-'',
      Number (int (digits_value ms)) 2, Symbol CHR ''-'', Number (int (digits_value ds)) 2]"
    unfolding s by (simp add: iso_tokens [OF dy ne(1) dm ne(2) dd ne(3)] len ReadUnsignedNumeral_short)
  have chars: "\<forall>c\<in>set s. is_digit c \<or> c = CHR ''-'' \<or> c = CHR ''+''"
    using dy dm dd by (subst s) (auto simp: list_all_iff)
  have "DateParser_Parse (tokens s)
      = Some ((int (digits_value ys), int (digits_value ms) - 1, int (digits_value ds)),
              (0, 0, 0, 0), Some 0)"
    unfolding tk by (rule iso_parse [OF rm rd])
  from Date_parse_tokens [OF this chars] show ?thesis
    by (simp add: t)
qed

lemma Date_parse_iso_signed:
  assumes "length s = 13" and "s ! 0 = CHR ''+'' \<or> s ! 0 = CHR ''-''"
    and "s ! 7 = CHR ''-''" and "s ! 10 = CHR ''-''"
    and "list_all is_digit (take 6 (drop 1 s))" and "take 7 s \<noteq> ''-000000''"
    and "iso_fields (take 7 s) (take 2 (drop 8 s)) (drop 11 s) = Some t"
  shows "Date_parse tza s = Some t"
proof -
  define ys ms ds where "ys = take 6 (drop 1 s)" and "ms = take 2 (drop 8 s)" and "ds = drop 11 s"
  have len: "length ys = 6" "length ms = 2" "length ds = 2"
    using assms(1) by (simp_all add: ys_def ms_def ds_def)
  have ne: "ys \<noteq> []" "ms \<noteq> []" "ds \<noteq> []"
    using len by auto
  have a: "s = s ! 0 # drop 1 s"
    using assms(1) Cons_nth_drop_Suc [of 0 s] by simp
  have b: "drop 1 s = ys @ drop 7 s"
    using append_take_drop_id [of 6 "drop 1 s"] by (simp add: ys_def)
  have c: "drop 7 s = CHR ''-'' # drop 8 s"
    using assms(1,3) Cons_nth_drop_Suc [of 7 s] by simp
  have d: "drop 8 s = ms @ drop 10 s"
    using append_take_drop_id [of 2 "drop 8 s"] by (simp add: ms_def)
  have e: "drop 10 s = CHR ''-'' # ds"
    using assms(1,4) Cons_nth_drop_Suc [of 10 s] by (simp add: ds_def)
  have s: "s = s ! 0 # ys @ CHR ''-'' # ms @ CHR ''-'' # ds"
    by (subst a) (simp only: b c d e)
  have t7: "take 7 s = s ! 0 # ys"
    by (subst s) (simp add: len)
  have f: "iso_fields (s ! 0 # ys) ms ds = Some t"
    using assms(7) by (simp add: t7 ms_def ds_def)
  have dy: "list_all is_digit ys"
    using assms(5) by (simp add: ys_def)
  have dm: "list_all is_digit ms" and dd: "list_all is_digit ds"
    and rm: "1 \<le> int (digits_value ms)" "int (digits_value ms) \<le> 12"
    and rd: "1 \<le> int (digits_value ds)" "int (digits_value ds) \<le> 31"
    using f by (auto simp: iso_fields_def Let_def split: if_splits)
  define y where "y = (if s ! 0 = CHR ''-'' then - int (digits_value ys) else int (digits_value ys))"
  have t: "TimeClip (MakeDate (MakeDay (Some y)
              (Some (int (digits_value ms) - 1)) (Some (int (digits_value ds)))) (Some 0)) = Some t"
    using f dm dd rm rd assms(2) by (auto simp add: iso_fields_def Let_def y_def)
  have tk: "tokens (ys @ CHR ''-'' # ms @ CHR ''-'' # ds)
     = [Number (int (digits_value ys)) 6, Symbol CHR ''-'',
        Number (int (digits_value ms)) 2, Symbol CHR ''-'', Number (int (digits_value ds)) 2]"
    by (simp add: iso_tokens [OF dy ne(1) dm ne(2) dd ne(3)] len ReadUnsignedNumeral_short)
  have chars: "\<forall>c\<in>set s. is_digit c \<or> c = CHR ''-'' \<or> c = CHR ''+''"
    using dy dm dd assms(2) by (subst s) (auto simp: list_all_iff)
  have "DateParser_Parse (tokens s)
      = Some ((y, int (digits_value ms) - 1, int (digits_value ds)), (0, 0, 0, 0), Some 0)"
  proof (cases "s ! 0 = CHR ''-''")
    case True
    have "digits_value ys \<noteq> 0"
    proof
      assume "digits_value ys = 0"
      from digits_value_zero [OF dy this] have "ys = ''000000''"
        by (simp add: len eval_nat_numeral)
      then show False
        using assms(6) t7 True by simp
    qed
    then have nz: "int (digits_value ys) \<noteq> 0" by simp
    have "tokens s = Symbol CHR ''-'' # tokens (ys @ CHR ''-'' # ms @ CHR ''-'' # ds)"
      by (subst s) (simp only: True tokens_dash)
    then show ?thesis
      using iso_parse_minus [OF rm rd nz] by (simp add: tk y_def True)
  next
    case False
    then have p: "s ! 0 = CHR ''+''"
      using assms(2) by simp
    have "tokens s = Symbol CHR ''+'' # tokens (ys @ CHR ''-'' # ms @ CHR ''-'' # ds)"
      by (subst s) (simp only: p tokens_plus)
    then show ?thesis
      using iso_parse_plus [OF rm rd] by (simp add: tk y_def p)
  qed
  from Date_parse_tokens [OF this chars] show ?thesis
    by (simp add: t)
qed

lemma Date_parse_iso_agrees:
  assumes "Date_parse_iso s = Some t"
  shows "Date_parse tza s = Some t"
proof (cases "length s = 10 \<and> s ! 4 = CHR ''-'' \<and> s ! 7 = CHR ''-'' \<and> list_all is_digit (take 4 s)")
  case True
  then show ?thesis
    using assms Date_parse_iso_plain [of s t tza] by (simp add: Date_parse_iso_def)
next
  case False
  then show ?thesis
    using assms Date_parse_iso_signed [of s t tza]
    by (simp add: Date_parse_iso_def split: if_splits)
qed

end
